theory Spec2Isabelle
  imports Main
begin

section \<open>Python strings\<close>

text \<open>
  A Python \<^verbatim>\<open>str\<close> is a sequence of Unicode code points; a code point is a natural
  number. \<open>py\<close> turns an ASCII literal of the program text into such a sequence.
\<close>

type_synonym str = "nat list"

text \<open>Three characters of the program text, by their code points.\<close>

abbreviation hyphen :: nat where
  "hyphen \<equiv> 45"

abbreviation space :: nat where
  "space \<equiv> 32"

abbreviation slash :: nat where
  "slash \<equiv> 47"

definition py :: "string \<Rightarrow> str" where
  "py cs = map of_char cs"

text \<open>\<^verbatim>\<open>s.replace(old, new)\<close> for a one-character \<open>old\<close> and a one-character \<open>new\<close>.\<close>

definition str_replace1 :: "nat \<Rightarrow> nat \<Rightarrow> str \<Rightarrow> str" where
  "str_replace1 old new s = map (\<lambda>c. if c = old then new else c) s"

text \<open>
  \<^verbatim>\<open>str.title()\<close> consults three tables of the Unicode character database: whether a code
  point is cased, its full lower-case mapping and its full title-case mapping. The tables
  below are those of CPython on the ASCII range U+0000..U+007F and on the two code points
  U+0130 (capital I with dot above, whose lower-case mapping is the two code points
  U+0069 U+0307) and U+0307 (combining dot above, uncased). Every other code point is
  left uncased and unmapped here, so the model follows Python on strings over the code
  points just listed; what is proved below about the case of characters is proved for
  such strings.
\<close>

definition is_cased :: "nat \<Rightarrow> bool" where
  "is_cased c = ((65 \<le> c \<and> c \<le> 90) \<or> (97 \<le> c \<and> c \<le> 122) \<or> c = 0x130)"

definition to_lower_full :: "nat \<Rightarrow> str" where
  "to_lower_full c =
     (if 65 \<le> c \<and> c \<le> 90 then [c + 32]
      else if c = 0x130 then [0x69, 0x307]
      else [c])"

definition to_title_full :: "nat \<Rightarrow> str" where
  "to_title_full c = (if 97 \<le> c \<and> c \<le> 122 then [c - 32] else [c])"

text \<open>
  The loop of \<^verbatim>\<open>str.title()\<close>: a character that follows a cased character is
  lower-cased, any other character is title-cased; the flag is then set from the
  character just read.
\<close>

fun do_title :: "bool \<Rightarrow> str \<Rightarrow> str" where
  "do_title previous_is_cased [] = []"
| "do_title previous_is_cased (c # cs) =
     (if previous_is_cased then to_lower_full c else to_title_full c)
       @ do_title (is_cased c) cs"

definition title :: "str \<Rightarrow> str" where
  "title s = do_title False s"

text \<open>\<^verbatim>\<open>s.split(sep)\<close> for a one-character separator, and \<^verbatim>\<open>sep.join(ws)\<close>.\<close>

fun split_on :: "nat \<Rightarrow> str \<Rightarrow> str list" where
  "split_on sep [] = [[]]"
| "split_on sep (c # cs) =
     (if c = sep then [] # split_on sep cs
      else (case split_on sep cs of
              [] \<Rightarrow> [[c]]
            | w # ws \<Rightarrow> (c # w) # ws))"

fun join :: "str \<Rightarrow> str list \<Rightarrow> str" where
  "join sep [] = []"
| "join sep [w] = w"
| "join sep (w # v # ws) = w @ sep @ join sep (v # ws)"

section \<open>The slug of a station\<close>

text \<open>\<^verbatim>\<open>slug_to_name\<close>, lines 25 to 27 of \<^verbatim>\<open>aqi_scraper.py\<close>.\<close>

definition slug_to_name :: "str \<Rightarrow> str" where
  "slug_to_name slug = title (str_replace1 hyphen space slug)"

section \<open>The document tree\<close>

text \<open>
  The tree that \<^verbatim>\<open>BeautifulSoup(resp.text, "html.parser")\<close> builds. \<open>Text\<close> is a string
  of the page (\<^verbatim>\<open>NavigableString\<close>, \<^verbatim>\<open>CData\<close>), \<open>Comment\<close> any other string node, which
  \<^verbatim>\<open>get_text\<close> leaves out. An \<open>Element\<close> has its tag name, the tokens of its
  \<^verbatim>\<open>class\<close> attribute (the library keeps them as a list), its other attributes as the
  dictionary \<^verbatim>\<open>attrs\<close>, read with \<open>map_of\<close>, and its children in document order.
  A \<open>tag\<close> is a node together with its ancestors, the parent first: the library's
  \<^verbatim>\<open>Tag\<close> object reaches them through \<^verbatim>\<open>.parent\<close>.
\<close>

datatype node =
    Text str
  | Comment str
  | Element str "str list" "(str \<times> str) list" "node list"

type_synonym tag = "node list \<times> node"

text \<open>All nodes below a node, in document order, each with its ancestors.\<close>

fun descendants :: "node list \<Rightarrow> node \<Rightarrow> tag list" where
  "descendants anc (Element n cls ats kids) =
     concat (map (\<lambda>k. (Element n cls ats kids # anc, k)
                        # descendants (Element n cls ats kids # anc) k) kids)"
| "descendants anc (Text s) = []"
| "descendants anc (Comment s) = []"

subsection \<open>CSS selectors\<close>

text \<open>
  The selectors of the program, parsed. A compound selector is a tag name, the classes
  it requires (\<^verbatim>\<open>.c\<close>) and the attribute tests \<^verbatim>\<open>[k*='v']\<close> it makes: the attribute \<open>k\<close>
  is present and its value contains \<open>v\<close>. Compounds are combined by \<^verbatim>\<open>>\<close> (the parent
  matches) and by a blank (some ancestor matches).
\<close>

datatype compound = Compound str "str list" "(str \<times> str) list"

datatype selector =
    Sel compound
  | Child selector compound
  | Descendant selector compound

fun contains :: "str \<Rightarrow> str \<Rightarrow> bool" where
  "contains pat [] = (pat = [])"
| "contains pat (c # cs) = (take (length pat) (c # cs) = pat \<or> contains pat cs)"

fun matches_compound :: "compound \<Rightarrow> node \<Rightarrow> bool" where
  "matches_compound (Compound t cls tests) (Element n ecls ats kids) =
     (n = t
      \<and> list_all (\<lambda>c. c \<in> set ecls) cls
      \<and> list_all (\<lambda>(k, v). case map_of ats k of None \<Rightarrow> False | Some x \<Rightarrow> contains v x) tests)"
| "matches_compound c (Text s) = False"
| "matches_compound c (Comment s) = False"

fun matches :: "selector \<Rightarrow> node list \<Rightarrow> node \<Rightarrow> bool" where
  "matches (Sel c) anc n = matches_compound c n"
| "matches (Child s c) anc n =
     (matches_compound c n \<and> (case anc of [] \<Rightarrow> False | p # ps \<Rightarrow> matches s ps p))"
| "matches (Descendant s c) anc n =
     (matches_compound c n
      \<and> list_ex (\<lambda>i. matches s (drop (Suc i) anc) (anc ! i)) [0..<length anc])"

text \<open>
  \<^verbatim>\<open>t.select(sel)\<close> and \<^verbatim>\<open>t.select_one(sel)\<close>: the descendants of \<open>t\<close> that match, in
  document order, and the first of them or \<^verbatim>\<open>None\<close>. The ancestors a selector asks for
  may lie above \<open>t\<close>.
\<close>

definition select :: "selector \<Rightarrow> tag \<Rightarrow> tag list" where
  "select sel t = filter (\<lambda>d. matches sel (fst d) (snd d)) (descendants (fst t) (snd t))"

definition select_one :: "selector \<Rightarrow> tag \<Rightarrow> tag option" where
  "select_one sel t = (case select sel t of [] \<Rightarrow> None | d # ds \<Rightarrow> Some d)"

text \<open>The five selectors of \<^verbatim>\<open>scrape\<close>, lines 39, 41, 52 to 54, 57 to 59 and 63.\<close>

definition SEL_ITEMS :: selector where
  "SEL_ITEMS = Child (Sel (Compound (py ''ul'') [py ''blog-grid''] []))
                     (Compound (py ''li'') [py ''grid-item''] [])"

definition SEL_DETAIL :: selector where
  "SEL_DETAIL = Sel (Compound (py ''a'') [] [(py ''href'', py ''ispu-detail'')])"

definition VALUE_BOX :: compound where
  "VALUE_BOX = Compound (py ''div'')
     [py ''position-relative'', py ''text-center'', py ''padding-20px-lr''] []"

definition SEL_VALUE :: selector where
  "SEL_VALUE = Descendant (Sel VALUE_BOX) (Compound (py ''h5'') [] [])"

definition SEL_POLLUTANT :: selector where
  "SEL_POLLUTANT = Descendant (Sel VALUE_BOX) (Compound (py ''p'') [] [])"

definition SEL_STATUS :: selector where
  "SEL_STATUS = Sel (Compound (py ''span'') [py ''text-uppercase''] [])"

subsection \<open>Reading a tag\<close>

datatype error =
    RequestException
  | HTTPError nat
  | KeyError str
  | IndexError
  | ValueError
  | TypeError
  | UnicodeEncodeError

text \<open>
  \<^verbatim>\<open>tag[key]\<close>: the attribute, or \<^verbatim>\<open>KeyError\<close> when the tag does not carry it; a string
  node cannot be indexed by a string.
\<close>

fun getitem :: "node \<Rightarrow> str \<Rightarrow> error + str" where
  "getitem (Element n cls ats kids) key =
     (case map_of ats key of None \<Rightarrow> Inl (KeyError key) | Some v \<Rightarrow> Inr v)"
| "getitem (Text s) key = Inl TypeError"
| "getitem (Comment s) key = Inl TypeError"

text \<open>
  \<^verbatim>\<open>str.isspace\<close> on one code point, \<^verbatim>\<open>s.strip()\<close>, and \<^verbatim>\<open>s.rstrip(ch)\<close> for one
  character.
\<close>

definition is_space :: "nat \<Rightarrow> bool" where
  "is_space c =
     ((9 \<le> c \<and> c \<le> 13) \<or> (28 \<le> c \<and> c \<le> 32) \<or> c = 0x85 \<or> c = 0xA0 \<or> c = 0x1680
      \<or> (0x2000 \<le> c \<and> c \<le> 0x200A) \<or> c = 0x2028 \<or> c = 0x2029 \<or> c = 0x202F
      \<or> c = 0x205F \<or> c = 0x3000)"

definition strip :: "str \<Rightarrow> str" where
  "strip s = rev (dropWhile is_space (rev (dropWhile is_space s)))"

definition rstrip1 :: "nat \<Rightarrow> str \<Rightarrow> str" where
  "rstrip1 ch s = rev (dropWhile (\<lambda>c. c = ch) (rev s))"

text \<open>
  \<^verbatim>\<open>tag.get_text(strip=True)\<close>: every text string below the tag is stripped, the empty
  ones are dropped, and the others are concatenated.
\<close>

fun all_strings :: "node \<Rightarrow> str list" where
  "all_strings (Text s) = [s]"
| "all_strings (Comment s) = []"
| "all_strings (Element n cls ats kids) = concat (map all_strings kids)"

definition get_text_strip :: "node \<Rightarrow> str" where
  "get_text_strip n = concat (filter (\<lambda>s. s \<noteq> []) (map strip (all_strings n)))"

text \<open>\<^verbatim>\<open>xs[-1]\<close>: the last element, or \<^verbatim>\<open>IndexError\<close> on the empty list.\<close>

definition index_last :: "'a list \<Rightarrow> error + 'a" where
  "index_last xs = (case xs of [] \<Rightarrow> Inl IndexError | y # ys \<Rightarrow> Inr (last xs))"

section \<open>The capture time\<close>

text \<open>
  A \<^verbatim>\<open>datetime\<close> value, and \<^verbatim>\<open>strftime("%Y-%m-%dT%H:%M:%SZ")\<close> on it: the year in
  decimal, the other fields in decimal padded with zeros to two characters.
\<close>

record datetime =
  year :: nat
  month :: nat
  day :: nat
  hour :: nat
  minute :: nat
  second :: nat

fun digits :: "nat \<Rightarrow> str" where
  "digits n = (if n < 10 then [48 + n] else digits (n div 10) @ [48 + n mod 10])"

declare digits.simps [simp del]

definition zero_pad :: "nat \<Rightarrow> str \<Rightarrow> str" where
  "zero_pad w s = replicate (w - length s) 48 @ s"

definition strftime :: "datetime \<Rightarrow> str" where
  "strftime t =
     digits (year t) @ py ''-'' @ zero_pad 2 (digits (month t)) @ py ''-''
       @ zero_pad 2 (digits (day t)) @ py ''T''
       @ zero_pad 2 (digits (hour t)) @ py '':'' @ zero_pad 2 (digits (minute t)) @ py '':''
       @ zero_pad 2 (digits (second t)) @ py ''Z''"





section \<open>\<^verbatim>\<open>scrape\<close>\<close>

text \<open>
  A record of \<^verbatim>\<open>scrape\<close> is a Python dictionary from field names to a string or
  \<^verbatim>\<open>None\<close>, kept as an association list in insertion order.
\<close>

type_synonym pydict = "(str \<times> str option) list"

text \<open>\<^verbatim>\<open>d[key]\<close> on such a dictionary.\<close>

definition dict_getitem :: "pydict \<Rightarrow> str \<Rightarrow> error + str option" where
  "dict_getitem d key = (case map_of d key of None \<Rightarrow> Inl (KeyError key) | Some v \<Rightarrow> Inr v)"

text \<open>The truth value of a string or \<^verbatim>\<open>None\<close>: false on \<^verbatim>\<open>None\<close> and on the empty string.\<close>

definition truthy :: "str option \<Rightarrow> bool" where
  "truthy v = (case v of None \<Rightarrow> False | Some s \<Rightarrow> s \<noteq> [])"

text \<open>
  Lines 44 to 49: \<^verbatim>\<open>station_name\<close> and \<^verbatim>\<open>detail_url\<close> from the result of the lookup of
  the detail link. A \<^verbatim>\<open>Tag\<close> is always true, so \<^verbatim>\<open>if link_tag\<close> tests for \<^verbatim>\<open>None\<close>.
\<close>

definition link_fields :: "tag option \<Rightarrow> error + (str option \<times> str option)" where
  "link_fields link_tag =
     (case link_tag of
        None \<Rightarrow> Inr (None, None)
      | Some a \<Rightarrow>
          (case getitem (snd a) (py ''href'') of
             Inl e \<Rightarrow> Inl e
           | Inr detail_url \<Rightarrow>
               (case index_last (split_on slash (rstrip1 slash detail_url)) of
                  Inl e \<Rightarrow> Inl e
                | Inr slug \<Rightarrow> Inr (Some (slug_to_name slug), Some detail_url))))"

text \<open>Lines 68 to 70: \<^verbatim>\<open>t.get_text(strip=True) if t else None\<close>.\<close>

definition text_or_none :: "tag option \<Rightarrow> str option" where
  "text_or_none t = (case t of None \<Rightarrow> None | Some d \<Rightarrow> Some (get_text_strip (snd d)))"

text \<open>Lines 41 to 72: the record built from one station item.\<close>

definition item_record :: "str \<Rightarrow> tag \<Rightarrow> error + pydict" where
  "item_record timestamp li =
     (case link_fields (select_one SEL_DETAIL li) of
        Inl e \<Rightarrow> Inl e
      | Inr (station_name, detail_url) \<Rightarrow>
          Inr [(py ''timestamp'', Some timestamp),
               (py ''station'', station_name),
               (py ''aqi'', text_or_none (select_one SEL_VALUE li)),
               (py ''pollutant'', text_or_none (select_one SEL_POLLUTANT li)),
               (py ''status'', text_or_none (select_one SEL_STATUS li)),
               (py ''detail_url'', detail_url)])"

text \<open>Lines 39 to 76: the loop over the station items, appending to \<^verbatim>\<open>records\<close>.\<close>

fun scrape_loop :: "str \<Rightarrow> tag list \<Rightarrow> pydict list \<Rightarrow> error + pydict list" where
  "scrape_loop timestamp [] records = Inr records"
| "scrape_loop timestamp (li # lis) records =
     (case item_record timestamp li of
        Inl e \<Rightarrow> Inl e
      | Inr record \<Rightarrow>
          (case dict_getitem record (py ''station'') of
             Inl e \<Rightarrow> Inl e
           | Inr station \<Rightarrow>
               scrape_loop timestamp lis
                 (if truthy station then records @ [record] else records)))"

text \<open>
  What \<^verbatim>\<open>requests.get\<close> gives: no response at all (connection failure, timeout), or a
  response with its status code and its body, the body already as the tree that the
  parser builds from it.
\<close>

datatype http_result = NoResponse | Response nat node

text \<open>
  \<^verbatim>\<open>scrape\<close>, lines 30 to 76. \<^verbatim>\<open>raise_for_status\<close> raises on the status codes 400 to
  599. \<open>now\<close> is the one reading of the clock on line 35.
\<close>

definition scrape :: "http_result \<Rightarrow> datetime \<Rightarrow> error + pydict list" where
  "scrape resp now =
     (case resp of
        NoResponse \<Rightarrow> Inl RequestException
      | Response status soup \<Rightarrow>
          if 400 \<le> status \<and> status < 600 then Inl (HTTPError status)
          else scrape_loop (strftime now) (select SEL_ITEMS ([], soup)) [])"

section \<open>The output files\<close>

text \<open>
  The file system maps a path to the text of the file, if the file exists. Failures of
  the file system itself are not modelled. Both files are opened with the encoding
  UTF-8: a code point can be written unless it is a surrogate (U+D800 to U+DFFF).
\<close>

type_synonym files = "str \<Rightarrow> str option"

definition OUTPUT_JSON :: str where
  "OUTPUT_JSON = py ''aqi_latest.json''"

definition OUTPUT_CSV :: str where
  "OUTPUT_CSV = py ''aqi_log.csv''"

definition utf8_encodable :: "nat \<Rightarrow> bool" where
  "utf8_encodable c = (c < 0xD800 \<or> (0xDFFF < c \<and> c \<le> 0x10FFFF))"

definition str_encodable :: "str \<Rightarrow> bool" where
  "str_encodable s = list_all utf8_encodable s"

text \<open>
  \<^verbatim>\<open>f.write(chunk)\<close>: the chunk is encoded as a whole and added to the end of the file;
  when it cannot be encoded, \<^verbatim>\<open>UnicodeEncodeError\<close> is raised and nothing of the chunk
  is written. What was written before stays in the file when the exception leaves the
  \<^verbatim>\<open>with\<close> block.
\<close>

definition file_write :: "str \<Rightarrow> str \<Rightarrow> error + str" where
  "file_write content chunk =
     (if str_encodable chunk then Inr (content @ chunk)
      else Inl UnicodeEncodeError)"

fun write_chunks :: "str list \<Rightarrow> str \<Rightarrow> error option \<times> str" where
  "write_chunks [] content = (None, content)"
| "write_chunks (chunk # chunks) content =
     (case file_write content chunk of
        Inl e \<Rightarrow> (Some e, content)
      | Inr content' \<Rightarrow> write_chunks chunks content')"

subsection \<open>JSON\<close>

text \<open>
  \<^verbatim>\<open>json.dump(records, f, ensure_ascii=False, indent=2)\<close>. In a string the double
  quote, the backslash and the control characters are escaped: a backslash (92) followed
  by the quote, the backslash, one of the letters n, r, t, b, f, or by u00 and two
  hexadecimal digits.
\<close>

definition hex_digit :: "nat \<Rightarrow> nat" where
  "hex_digit d = (if d < 10 then 48 + d else 87 + d)"

definition json_char :: "nat \<Rightarrow> str" where
  "json_char c =
     (if c = 34 then [92, 34]
      else if c = 92 then [92, 92]
      else if c = 10 then [92, 110]
      else if c = 13 then [92, 114]
      else if c = 9 then [92, 116]
      else if c = 8 then [92, 98]
      else if c = 12 then [92, 102]
      else if c < 32 then [92, 117, 48, 48, hex_digit (c div 16), hex_digit (c mod 16)]
      else [c])"

definition json_string :: "str \<Rightarrow> str" where
  "json_string s = [34] @ concat (map json_char s) @ [34]"

definition json_value :: "str option \<Rightarrow> str" where
  "json_value v = (case v of None \<Rightarrow> py ''null'' | Some s \<Rightarrow> json_string s)"

text \<open>
  The encoder hands the text to the file in chunks, one \<^verbatim>\<open>write\<close> each. For a
  dictionary: the opening brace, the line break with the indentation, then for every
  item the separator (from the second item on), the key, the colon and the value, and at
  the end the line break and the closing brace.
\<close>

fun json_items :: "bool \<Rightarrow> pydict \<Rightarrow> str list" where
  "json_items first [] = []"
| "json_items first ((key, v) # items) =
     (if first then [] else [py '','' @ [10] @ py ''    ''])
       @ [json_string key, py '': '', json_value v]
       @ json_items False items"

definition json_dict_chunks :: "pydict \<Rightarrow> str list" where
  "json_dict_chunks d =
     (if d = [] then [py ''{}'']
      else [py ''{'', [10] @ py ''    ''] @ json_items True d @ [[10] @ py ''  '', py ''}''])"

text \<open>
  For the list of records: the opening bracket with the line break, the records with
  their separators, the line break and the closing bracket.
\<close>

fun json_list_items :: "bool \<Rightarrow> pydict list \<Rightarrow> str list" where
  "json_list_items first [] = []"
| "json_list_items first (d # ds) =
     [if first then py ''['' @ [10] @ py ''  '' else py '','' @ [10] @ py ''  '']
       @ json_dict_chunks d
       @ json_list_items False ds"

definition json_chunks :: "pydict list \<Rightarrow> str list" where
  "json_chunks records =
     (if records = [] then [py ''[]'']
      else json_list_items True records @ [[10], py '']''])"

text \<open>
  \<^verbatim>\<open>save_json\<close>, lines 79 to 82: the file is opened for writing, which empties it, and
  the chunks are written; a chunk that cannot be encoded ends the writing with the
  exception.
\<close>

definition save_json :: "pydict list \<Rightarrow> files \<Rightarrow> error option \<times> files" where
  "save_json records fs =
     (case write_chunks (json_chunks records) [] of
        (err, content) \<Rightarrow> (err, fs(OUTPUT_JSON \<mapsto> content)))"

subsection \<open>CSV\<close>

text \<open>
  One row of \<^verbatim>\<open>csv.writer\<close> in its default dialect: a field that contains a comma
  (44), a double quote (34), a carriage return (13) or a line feed (10) is put in double
  quotes, with every double quote doubled; the fields are joined by commas and the row
  ends in \<^verbatim>\<open>\r\n\<close>. A row of one empty field is written as two double quotes.
\<close>

definition csv_field :: "str \<Rightarrow> str" where
  "csv_field s =
     (if list_ex (\<lambda>c. c = 44 \<or> c = 34 \<or> c = 13 \<or> c = 10) s
      then [34] @ concat (map (\<lambda>c. if c = 34 then [34, 34] else [c]) s) @ [34]
      else s)"

definition csv_row :: "str list \<Rightarrow> str" where
  "csv_row cells =
     (if cells = [[]] then [34, 34] else join [44] (map csv_field cells)) @ [13, 10]"

definition fieldnames :: "str list" where
  "fieldnames = [py ''timestamp'', py ''station'', py ''aqi'', py ''pollutant'',
                 py ''status'', py ''detail_url'']"

text \<open>
  \<^verbatim>\<open>DictWriter._dict_to_list\<close>: a dictionary with a key that is no field name is
  refused with \<^verbatim>\<open>ValueError\<close>; a missing key and \<^verbatim>\<open>None\<close> both give the empty field.
\<close>

definition dict_to_list :: "pydict \<Rightarrow> error + str list" where
  "dict_to_list rowdict =
     (if list_ex (\<lambda>k. k \<notin> set fieldnames) (map fst rowdict) then Inl ValueError
      else Inr (map (\<lambda>key. case map_of rowdict key of
                              None \<Rightarrow> []
                            | Some None \<Rightarrow> []
                            | Some (Some s) \<Rightarrow> s) fieldnames))"

text \<open>
  \<^verbatim>\<open>writer.writerows\<close>: each row is written with one \<^verbatim>\<open>write\<close> to the end of the
  file; a row that is refused or cannot be encoded stops the writing, and the rows before
  it stay written.
\<close>

fun writerows :: "pydict list \<Rightarrow> str \<Rightarrow> error option \<times> str" where
  "writerows [] content = (None, content)"
| "writerows (r # rs) content =
     (case dict_to_list r of
        Inl e \<Rightarrow> (Some e, content)
      | Inr cells \<Rightarrow>
          (case file_write content (csv_row cells) of
             Inl e \<Rightarrow> (Some e, content)
           | Inr content' \<Rightarrow> writerows rs content'))"

text \<open>
  \<^verbatim>\<open>append_csv\<close>, lines 85 to 93: the file is opened for appending, the header is
  written when the file did not exist, then the rows are appended.
\<close>

definition append_csv :: "pydict list \<Rightarrow> files \<Rightarrow> error option \<times> files" where
  "append_csv records fs =
     (let file_exists = (fs OUTPUT_CSV \<noteq> None);
          content = (case fs OUTPUT_CSV of None \<Rightarrow> [] | Some old \<Rightarrow> old)
      in case (if \<not> file_exists then file_write content (csv_row fieldnames)
               else Inr content) of
           Inl e \<Rightarrow> (Some e, fs(OUTPUT_CSV \<mapsto> content))
         | Inr content' \<Rightarrow>
             (case writerows records content' of
                (err, content'') \<Rightarrow> (err, fs(OUTPUT_CSV \<mapsto> content''))))"

section \<open>The run\<close>

text \<open>
  Lines 96 to 104, without the printing: an exception of \<^verbatim>\<open>scrape\<close> ends the run with
  the files as they were; otherwise, when there is at least one record, the JSON file
  is written and then the CSV file, an exception of the first ending the run before the
  second; when there is no record, no file is written. The result is the exception that
  ended the run, if any, and the files after the run.
\<close>

definition main :: "http_result \<Rightarrow> datetime \<Rightarrow> files \<Rightarrow> error option \<times> files" where
  "main resp now fs =
     (case scrape resp now of
        Inl e \<Rightarrow> (Some e, fs)
      | Inr data \<Rightarrow>
          if data \<noteq> [] then
            (case save_json data fs of
               (Some e, fs') \<Rightarrow> (Some e, fs')
             | (None, fs') \<Rightarrow> append_csv data fs')
          else (None, fs))"

section \<open>Notions of the specification\<close>

subsection \<open>Title-casing the words of a slug\<close>

text \<open>
  The specification's reading of \<^verbatim>\<open>slug_to_name\<close>, in its own words and for ASCII
  text: the slug is cut into its words at every hyphen and every space; a word is
  title-cased by putting its first character in upper case and its other characters in
  lower case; the words are put together again with single spaces.
\<close>

definition is_letter :: "nat \<Rightarrow> bool" where
  "is_letter c = ((65 \<le> c \<and> c \<le> 90) \<or> (97 \<le> c \<and> c \<le> 122))"

definition upper_case :: "nat \<Rightarrow> nat" where
  "upper_case c = (if 97 \<le> c \<and> c \<le> 122 then c - 32 else c)"

definition lower_case :: "nat \<Rightarrow> nat" where
  "lower_case c = (if 65 \<le> c \<and> c \<le> 90 then c + 32 else c)"

definition capitalize_word :: "str \<Rightarrow> str" where
  "capitalize_word w = (case w of [] \<Rightarrow> [] | c # cs \<Rightarrow> upper_case c # map lower_case cs)"

fun words_between :: "(nat \<Rightarrow> bool) \<Rightarrow> str \<Rightarrow> str list" where
  "words_between sep [] = [[]]"
| "words_between sep (c # cs) =
     (if sep c then [] # words_between sep cs
      else (case words_between sep cs of
              [] \<Rightarrow> [[c]]
            | w # ws \<Rightarrow> (c # w) # ws))"

definition slug_words :: "str \<Rightarrow> str list" where
  "slug_words s = words_between (\<lambda>c. c = hyphen \<or> c = space) s"

definition title_each_word :: "str \<Rightarrow> str" where
  "title_each_word s = join [space] (map capitalize_word (slug_words s))"

text \<open>
  A word in which no letter comes after a character that is not a letter: its letters,
  if any, all stand at its beginning.
\<close>

definition letters_first :: "str \<Rightarrow> bool" where
  "letters_first w = (\<not> list_ex is_letter (dropWhile is_letter w))"

definition ascii :: "str \<Rightarrow> bool" where
  "ascii s = list_all (\<lambda>c. c < 128) s"

subsection \<open>The segments of a reference\<close>

text \<open>
  The last non-empty path segment of a reference: the reference is cut at every \<open>/\<close>,
  the empty pieces are dropped, and the last piece left is taken, if there is one.
\<close>

definition last_nonempty_segment :: "str \<Rightarrow> str option" where
  "last_nonempty_segment ref =
     (case filter (\<lambda>w. w \<noteq> []) (split_on slash ref) of
        [] \<Rightarrow> None
      | w # ws \<Rightarrow> Some (last (w # ws)))"

subsection \<open>The status of a response\<close>

text \<open>
  A success status in the sense of HTTP, as the specification's \<^emph>\<open>non-success status\<close>
  reads: the codes 200 to 299.
\<close>

definition http_success :: "nat \<Rightarrow> bool" where
  "http_success status = (200 \<le> status \<and> status < 300)"

subsection \<open>The rows of a CSV text\<close>

text \<open>
  What a reader of CSV finds in a text: rows that end in \<^verbatim>\<open>\r\n\<close>, each a list of
  fields separated by commas; a field is either plain, without comma, double quote,
  carriage return and line feed, or enclosed in double quotes, where a doubled double
  quote stands for one. The reader goes through the text character by character; it
  keeps the field and the row it is reading and the rows it has read, and fails
  (\<open>None\<close>) on a text that is not of this form.
\<close>

datatype csv_state = RowStart | FieldStart | InPlain | InQuoted | AfterQuote | AfterCR

fun csv_read :: "csv_state \<Rightarrow> str \<Rightarrow> str list \<Rightarrow> str list list \<Rightarrow> str \<Rightarrow> str list list option" where
  "csv_read st field row rows [] = (if st = RowStart then Some rows else None)"
| "csv_read st field row rows (c # cs) =
     (case st of
        AfterCR \<Rightarrow> (if c = 10 then csv_read RowStart [] [] (rows @ [row]) cs else None)
      | InQuoted \<Rightarrow>
          (if c = 34 then csv_read AfterQuote field row rows cs
           else csv_read InQuoted (field @ [c]) row rows cs)
      | AfterQuote \<Rightarrow>
          (if c = 34 then csv_read InQuoted (field @ [34]) row rows cs
           else if c = 44 then csv_read FieldStart [] (row @ [field]) rows cs
           else if c = 13 then csv_read AfterCR [] (row @ [field]) rows cs
           else None)
      | InPlain \<Rightarrow>
          (if c = 44 then csv_read FieldStart [] (row @ [field]) rows cs
           else if c = 13 then csv_read AfterCR [] (row @ [field]) rows cs
           else if c = 34 \<or> c = 10 then None
           else csv_read InPlain (field @ [c]) row rows cs)
      | _ \<Rightarrow>
          (if c = 34 then csv_read InQuoted [] row rows cs
           else if c = 44 then csv_read FieldStart [] (row @ [[]]) rows cs
           else if c = 13 then csv_read AfterCR [] (row @ [[]]) rows cs
           else if c = 10 then None
           else csv_read InPlain [c] row rows cs))"

definition csv_rows :: "str \<Rightarrow> str list list option" where
  "csv_rows content = csv_read RowStart [] [] [] content"

text \<open>
  The row of a record: the fields \<^verbatim>\<open>timestamp\<close>, \<^verbatim>\<open>station\<close>, \<^verbatim>\<open>aqi\<close>, \<^verbatim>\<open>pollutant\<close>,
  \<^verbatim>\<open>status\<close>, \<^verbatim>\<open>detail_url\<close> in this order, an absent field as the empty string.
\<close>

definition cell_of :: "pydict \<Rightarrow> string \<Rightarrow> str" where
  "cell_of r key = (case map_of r (py key) of Some (Some s) \<Rightarrow> s | _ \<Rightarrow> [])"

definition record_row :: "pydict \<Rightarrow> str list" where
  "record_row r = [cell_of r ''timestamp'', cell_of r ''station'', cell_of r ''aqi'',
                   cell_of r ''pollutant'', cell_of r ''status'', cell_of r ''detail_url'']"

text \<open>A record all of whose keys and field texts can be encoded in UTF-8.\<close>

definition dict_encodable :: "pydict \<Rightarrow> bool" where
  "dict_encodable d =
     list_all (\<lambda>kv. str_encodable (fst kv)
                    \<and> (case snd kv of None \<Rightarrow> True | Some s \<Rightarrow> str_encodable s)) d"

text \<open>The header line of the CSV file.\<close>

definition csv_header :: str where
  "csv_header = py ''timestamp,station,aqi,pollutant,status,detail_url'' @ [13, 10]"

section \<open>Sample pages\<close>

text \<open>
  Station items as the page lists them: a complete one, one without the AQI heading,
  and one without the detail link.
\<close>

definition value_box :: "node list \<Rightarrow> node" where
  "value_box kids = Element (py ''div'')
     [py ''position-relative'', py ''text-center'', py ''padding-20px-lr''] [] kids"

definition item_full :: node where
  "item_full = Element (py ''li'') [py ''grid-item''] []
     [Element (py ''a'') [] [(py ''href'', py ''/ispu-detail/us-embassy-1/'')] [],
      value_box [Element (py ''h5'') [] [] [Text (py '' 57 '')],
                 Element (py ''p'') [] [] [Text (py ''PM 2.5'')]],
      Element (py ''span'') [py ''text-uppercase''] [] [Text (py ''Sedang'')]]"

definition item_no_aqi :: node where
  "item_no_aqi = Element (py ''li'') [py ''grid-item''] []
     [Element (py ''a'') [] [(py ''href'', py ''/ispu-detail/dki1'')] [],
      value_box [Element (py ''p'') [] [] [Text (py ''SO2'')]],
      Element (py ''span'') [py ''text-uppercase''] [] [Text (py ''Baik'')]]"

definition item_no_link :: node where
  "item_no_link = Element (py ''li'') [py ''grid-item''] []
     [value_box [Element (py ''h5'') [] [] [Text (py ''12'')]]]"

text \<open>
  An item whose slug has a word that starts with a digit, and an item whose status text
  holds the lone surrogate U+D800, as the character reference \<^verbatim>\<open>&#xD800;\<close> leaves it
  in the tree.
\<close>

definition item_third :: node where
  "item_third = Element (py ''li'') [py ''grid-item''] []
     [Element (py ''a'') [] [(py ''href'', py ''/ispu-detail/3rd-street'')] []]"

definition item_surrogate :: node where
  "item_surrogate = Element (py ''li'') [py ''grid-item''] []
     [Element (py ''a'') [] [(py ''href'', py ''/ispu-detail/dki1'')] [],
      Element (py ''span'') [py ''text-uppercase''] [] [Text [0xD800]]]"

text \<open>The list that holds the items, and a page that holds the list.\<close>

definition station_list :: "node list \<Rightarrow> node" where
  "station_list items = Element (py ''ul'') [py ''blog-grid''] [] items"

definition page :: "node list \<Rightarrow> node" where
  "page items = Element (py ''[document]'') [] [] [station_list items]"

text \<open>Output files left by an earlier run.\<close>

definition sample_files :: files where
  "sample_files = [OUTPUT_JSON \<mapsto> py ''[]'', OUTPUT_CSV \<mapsto> py ''old'']"

definition sample_now :: datetime where
  "sample_now = \<lparr>year = 2026, month = 11, day = 4, hour = 9, minute = 5, second = 0\<rparr>"


section \<open>Properties of \<^verbatim>\<open>slug_to_name\<close>\<close>

lemma py_eq_iff [simp]: "py a = py b \<longleftrightarrow> a = b"
  unfolding py_def by (rule inj_map_eq_map) (rule inj_of_char)

lemma py_Nil [simp]: "py [] = []"
  by (simp add: py_def)

lemma py_eq_Nil [simp]: "py a = [] \<longleftrightarrow> a = []"
  by (simp add: py_def)

lemma split_on_not_Nil: "split_on sep s \<noteq> []"
  by (induction s) (auto split: list.splits)

lemma join_append_head: "join sep ((x @ y) # ws) = x @ join sep (y # ws)"
  by (cases ws) auto

lemma do_title_split:
  "do_title b s =
     (case split_on 32 s of
        [] \<Rightarrow> []
      | w # ws \<Rightarrow> join [32] (do_title b w # map (do_title False) ws))"
proof (induction s arbitrary: b)
  case Nil
  show ?case by simp
next
  case (Cons c cs)
  obtain w ws where sp: "split_on 32 cs = w # ws"
    using split_on_not_Nil [of 32 cs] by (cases "split_on 32 cs") auto
  show ?case
  proof (cases "c = 32")
    case True
    have "do_title b (c # cs) = [32] @ do_title False cs"
      using True by (simp add: to_lower_full_def to_title_full_def is_cased_def)
    also have "do_title False cs = join [32] (do_title False w # map (do_title False) ws)"
      using Cons.IH [of False] sp by simp
    finally show ?thesis using True sp by simp
  next
    case False
    have "do_title (is_cased c) cs
        = join [32] (do_title (is_cased c) w # map (do_title False) ws)"
      using Cons.IH [of "is_cased c"] sp by simp
    then show ?thesis using False sp
      by (simp add: join_append_head del: join.simps)
  qed
qed

lemma title_eq: "title = do_title False"
  by (rule ext) (simp add: title_def)

lemma title_split: "title s = join [32] (map title (split_on 32 s))"
  using do_title_split [of False s] split_on_not_Nil [of 32 s]
  by (cases "split_on 32 s") (auto simp: title_eq)

lemma do_title_no_hyphen: "45 \<notin> set s \<Longrightarrow> 45 \<notin> set (do_title b s)"
  by (induction s arbitrary: b) (auto simp: to_lower_full_def to_title_full_def)

lemma slug_to_name_no_hyphen: "45 \<notin> set (slug_to_name s)"
  unfolding slug_to_name_def title_def
  by (rule do_title_no_hyphen) (auto simp: str_replace1_def)

lemma str_replace1_absent: "old \<notin> set s \<Longrightarrow> str_replace1 old new s = s"
  by (induction s) (auto simp: str_replace1_def)

lemma do_title_length: "length s \<le> length (do_title b s)"
proof (induction s arbitrary: b)
  case Nil
  show ?case by simp
next
  case (Cons c cs)
  have "1 \<le> length (if b then to_lower_full c else to_title_full c)"
    by (simp add: to_lower_full_def to_title_full_def)
  then show ?case using Cons.IH [of "is_cased c"] by simp
qed

lemma slug_to_name_eq_Nil [simp]: "slug_to_name s = [] \<longleftrightarrow> s = []"
  using do_title_length [of "str_replace1 45 32 s" False]
  by (auto simp: slug_to_name_def title_def str_replace1_def)

text \<open>
  A letter that follows a digit or a punctuation character inside a word starts a new
  run of letters for \<^verbatim>\<open>str.title()\<close> and is put in upper case:
  \<^verbatim>\<open>'3rd'.title()\<close> is \<^verbatim>\<open>'3Rd'\<close>.
\<close>

lemma title_digit_then_letters: "title (py ''3rd'') = py ''3Rd''"
  by (simp add: title_def py_def is_cased_def to_lower_full_def to_title_full_def)

lemma split_on_replace: "split_on space (str_replace1 hyphen space s) = slug_words s"
  unfolding slug_words_def
  by (induction s) (auto simp: str_replace1_def split: list.splits)

lemma words_between_not_Nil: "words_between sep s \<noteq> []"
  by (induction s) (auto split: list.splits)

lemma words_between_subset: "w \<in> set (words_between sep s) \<Longrightarrow> set w \<subseteq> set s"
proof (induction s arbitrary: w)
  case Nil
  then show ?case by simp
next
  case (Cons c cs)
  obtain v vs where sp: "words_between sep cs = v # vs"
    using words_between_not_Nil [of sep cs] by (cases "words_between sep cs") auto
  show ?case
  proof (cases "sep c")
    case True
    then have "w = [] \<or> w \<in> set (words_between sep cs)" using Cons.prems by simp
    then show ?thesis using Cons.IH by auto
  next
    case False
    then have "w = c # v \<or> w \<in> set vs" using Cons.prems sp by simp
    moreover have "set v \<subseteq> set cs" using Cons.IH [of v] sp by simp
    moreover have "w \<in> set vs \<Longrightarrow> set w \<subseteq> set cs" using Cons.IH [of w] sp by simp
    ultimately show ?thesis by auto
  qed
qed

lemma no_letters_do_title:
  "ascii w \<Longrightarrow> \<not> list_ex is_letter w \<Longrightarrow> do_title b w = w"
  by (induction w arbitrary: b)
    (auto simp: ascii_def is_letter_def is_cased_def to_lower_full_def to_title_full_def)

lemma no_letters_lower: "\<not> list_ex is_letter w \<Longrightarrow> map lower_case w = w"
  by (induction w) (auto simp: is_letter_def lower_case_def)

lemma letters_first_do_title:
  "ascii w \<Longrightarrow> letters_first w \<Longrightarrow> do_title True w = map lower_case w"
proof (induction w)
  case Nil
  show ?case by simp
next
  case (Cons c cs)
  show ?case
  proof (cases "is_letter c")
    case True
    have c: "c < 128" and cs: "ascii cs" using Cons.prems(1) by (simp_all add: ascii_def)
    have "letters_first cs" using Cons.prems(2) True by (simp add: letters_first_def)
    then have "do_title True cs = map lower_case cs" using Cons.IH cs by simp
    moreover have "to_lower_full c = [lower_case c]" "is_cased c"
      using True c by (auto simp: to_lower_full_def lower_case_def is_cased_def is_letter_def)
    ultimately show ?thesis by simp
  next
    case False
    then have none: "\<not> list_ex is_letter (c # cs)"
      using Cons.prems(2) by (simp add: letters_first_def)
    then show ?thesis
      using no_letters_do_title [OF Cons.prems(1) none, of True] no_letters_lower [OF none]
      by simp
  qed
qed

lemma letters_first_title:
  assumes "ascii w" and "letters_first w"
  shows "title w = capitalize_word w"
proof (cases w)
  case Nil
  then show ?thesis by (simp add: title_def capitalize_word_def)
next
  case (Cons c cs)
  show ?thesis
  proof (cases "is_letter c")
    case True
    have c: "c < 128" and cs: "ascii cs" using assms(1) Cons by (simp_all add: ascii_def)
    have "letters_first cs" using assms(2) Cons True by (simp add: letters_first_def)
    then have "do_title True cs = map lower_case cs"
      using letters_first_do_title cs by simp
    moreover have "to_title_full c = [upper_case c]" "is_cased c"
      using True c by (auto simp: to_title_full_def upper_case_def is_cased_def is_letter_def)
    ultimately show ?thesis using Cons by (simp add: title_def capitalize_word_def)
  next
    case False
    then have none: "\<not> list_ex is_letter w"
      using assms(2) Cons by (simp add: letters_first_def)
    have "upper_case c = c" using False by (auto simp: upper_case_def is_letter_def)
    then have "capitalize_word w = w"
      using Cons no_letters_lower [OF none] by (simp add: capitalize_word_def)
    then show ?thesis using no_letters_do_title [OF assms(1) none, of False]
      by (simp add: title_def)
  qed
qed

lemma slug_to_name_title_each_word_plain:
  assumes "ascii s" and "list_all letters_first (slug_words s)"
  shows "slug_to_name s = title_each_word s"
proof -
  have "title w = capitalize_word w" if w: "w \<in> set (slug_words s)" for w
  proof -
    have "set w \<subseteq> set s" using w words_between_subset by (simp add: slug_words_def)
    then have "ascii w" using assms(1) by (auto simp: ascii_def list_all_iff)
    moreover have "letters_first w" using assms(2) w by (simp add: list_all_iff)
    ultimately show ?thesis by (rule letters_first_title)
  qed
  then have eq: "map title (slug_words s) = map capitalize_word (slug_words s)" by simp
  have "slug_to_name s = join [space] (map title (slug_words s))"
    using title_split [of "str_replace1 hyphen space s"]
    by (simp add: slug_to_name_def split_on_replace)
  also have "\<dots> = join [space] (map capitalize_word (slug_words s))"
    by (simp only: eq)
  finally show ?thesis by (simp only: title_each_word_def)
qed

text \<open>
  Claim C1, as stated, fails. The slug \<^verbatim>\<open>3rd-street\<close> contains a hyphen; title-casing
  its words gives \<^verbatim>\<open>3rd Street\<close>, while \<^verbatim>\<open>slug_to_name\<close> gives \<^verbatim>\<open>3Rd Street\<close>: the
  letter after the digit is put in upper case.
\<close>

theorem slug_to_name_digit_word:
  "hyphen \<in> set (py ''3rd-street'')
   \<and> title_each_word (py ''3rd-street'') = py ''3rd Street''
   \<and> slug_to_name (py ''3rd-street'') = py ''3Rd Street''
   \<and> slug_to_name (py ''3rd-street'') \<noteq> title_each_word (py ''3rd-street'')"
  by (simp add: slug_to_name_def title_each_word_def slug_words_def capitalize_word_def
      upper_case_def lower_case_def py_def title_def str_replace1_def
      is_cased_def to_lower_full_def to_title_full_def)

text \<open>
  Claim C1, amended. For every ASCII slug \<open>s\<close>, with or without hyphens, in whose words
  no letter follows a character that is not a letter, \<^verbatim>\<open>slug_to_name(s)\<close> is \<open>s\<close> with
  every hyphen replaced by a space and every word title-cased, its first character in
  upper case and its other characters in lower case, and no hyphen is left in the
  result; in particular \<^verbatim>\<open>slug_to_name("us-embassy-1")\<close> is \<^verbatim>\<open>"Us Embassy 1"\<close>.
\<close>

theorem slug_to_name_title_cases_words:
  assumes "ascii s" and "list_all letters_first (slug_words s)"
  shows "slug_to_name s = title_each_word s \<and> hyphen \<notin> set (slug_to_name s)"
proof -
  have "slug_to_name s = title_each_word s"
    using assms by (rule slug_to_name_title_each_word_plain)
  moreover have "hyphen \<notin> set (slug_to_name s)"
    by (rule slug_to_name_no_hyphen)
  ultimately show ?thesis by blast
qed

theorem slug_to_name_title_cases_words_witness:
  "ascii (py ''us-embassy-1'')
   \<and> list_all letters_first (slug_words (py ''us-embassy-1''))
   \<and> slug_to_name (py ''us-embassy-1'') = py ''Us Embassy 1''
   \<and> title_each_word (py ''us-embassy-1'') = py ''Us Embassy 1''
   \<and> slug_to_name (py ''KEBON-jeruk'') = py ''Kebon Jeruk''
   \<and> title_each_word (py ''KEBON-jeruk'') = py ''Kebon Jeruk''"
proof -
  have a: "ascii (py ''us-embassy-1'')" "ascii (py ''KEBON-jeruk'')"
    by (simp_all add: ascii_def py_def)
  have l: "list_all letters_first (slug_words (py ''us-embassy-1''))"
    "list_all letters_first (slug_words (py ''KEBON-jeruk''))"
    by (simp_all add: slug_words_def letters_first_def is_letter_def py_def)
  have t: "title_each_word (py ''us-embassy-1'') = py ''Us Embassy 1''"
    "title_each_word (py ''KEBON-jeruk'') = py ''Kebon Jeruk''"
    by (simp_all add: title_each_word_def slug_words_def capitalize_word_def
        upper_case_def lower_case_def py_def)
  show ?thesis
    using slug_to_name_title_cases_words [OF a(1) l(1)]
      slug_to_name_title_cases_words [OF a(2) l(2)] a l t
    by simp
qed

lemma ascii_case_step:
  assumes "c < 128"
  shows "\<exists>m. (if b then to_lower_full c else to_title_full c) = [m]
           \<and> (if b then to_lower_full m else to_title_full m) = [m]
           \<and> is_cased m = is_cased c"
proof (cases b)
  case True
  then show ?thesis using assms
    by (auto simp: to_lower_full_def is_cased_def)
next
  case False
  then show ?thesis using assms
    by (auto simp: to_title_full_def is_cased_def)
qed

lemma do_title_ascii_idem:
  "\<forall>c\<in>set s. c < 128 \<Longrightarrow> do_title b (do_title b s) = do_title b s"
proof (induction s arbitrary: b)
  case Nil
  show ?case by simp
next
  case (Cons c cs)
  then have "c < 128" and rest: "\<forall>c\<in>set cs. c < 128" by simp_all
  then obtain m where m: "(if b then to_lower_full c else to_title_full c) = [m]"
      "(if b then to_lower_full m else to_title_full m) = [m]" "is_cased m = is_cased c"
    using ascii_case_step [of c b] by blast
  have "do_title b (c # cs) = m # do_title (is_cased c) cs"
    using m(1) by simp
  moreover have "do_title b (m # do_title (is_cased c) cs)
      = m # do_title (is_cased c) (do_title (is_cased c) cs)"
    using m(2,3) by simp
  ultimately show ?case using Cons.IH [OF rest, of "is_cased c"] by simp
qed

text \<open>
  Claim C9, as stated, fails. The string of the three code points U+0061, U+0130,
  U+0062 has the image U+0041 U+0069 U+0307 U+0062, which contains no hyphen; in that
  image the last letter follows the uncased U+0307 and is upper-cased by the second
  application, so the second image differs from the first.
\<close>

theorem slug_to_name_not_idempotent:
  "hyphen \<notin> set (slug_to_name [0x61, 0x130, 0x62])
   \<and> slug_to_name (slug_to_name [0x61, 0x130, 0x62]) \<noteq> slug_to_name [0x61, 0x130, 0x62]"
  by (simp add: slug_to_name_def title_def str_replace1_def
      is_cased_def to_lower_full_def to_title_full_def)

text \<open>
  Claim C9, amended. For every string \<open>s\<close> of ASCII characters, the image
  \<^verbatim>\<open>slug_to_name(s)\<close> contains no hyphen and \<^verbatim>\<open>slug_to_name\<close> is idempotent on it:
  \<^verbatim>\<open>slug_to_name(slug_to_name(s)) = slug_to_name(s)\<close>.
\<close>

theorem slug_to_name_idempotent_ascii:
  "\<forall>c\<in>set s. c < 128 \<Longrightarrow>
   hyphen \<notin> set (slug_to_name s) \<and> slug_to_name (slug_to_name s) = slug_to_name s"
proof -
  assume a: "\<forall>c\<in>set s. c < 128"
  have "\<forall>c\<in>set (str_replace1 45 32 s). c < 128"
    using a by (auto simp: str_replace1_def)
  then have "title (title (str_replace1 45 32 s)) = title (str_replace1 45 32 s)"
    unfolding title_def by (rule do_title_ascii_idem)
  moreover have "str_replace1 45 32 (slug_to_name s) = slug_to_name s"
    by (rule str_replace1_absent) (rule slug_to_name_no_hyphen)
  ultimately show ?thesis
    using slug_to_name_no_hyphen [of s] by (simp add: slug_to_name_def)
qed

theorem slug_to_name_idempotent_ascii_witness:
  "list_all (\<lambda>c. c < 128) (py ''us-embassy-1'')
   \<and> hyphen \<notin> set (slug_to_name (py ''us-embassy-1''))
   \<and> slug_to_name (slug_to_name (py ''us-embassy-1'')) = slug_to_name (py ''us-embassy-1'')"
  using slug_to_name_idempotent_ascii [of "py ''us-embassy-1''"]
  by (simp add: py_def list_all_iff)

section \<open>The segments of a reference\<close>

lemma contains_set: "contains pat s \<Longrightarrow> set pat \<subseteq> set s"
proof (induction s)
  case Nil
  then show ?case by simp
next
  case (Cons c cs)
  show ?case
  proof (cases "take (length pat) (c # cs) = pat")
    case True
    then have "set pat = set (take (length pat) (c # cs))" by simp
    then show ?thesis using set_take_subset [of "length pat" "c # cs"] by blast
  next
    case False
    then have "contains pat cs" using Cons.prems by simp
    then show ?thesis using Cons.IH by auto
  qed
qed

lemma marker_not_only_slashes:
  "contains (py ''ispu-detail'') v \<Longrightarrow> \<exists>c\<in>set v. c \<noteq> 47"
proof -
  assume "contains (py ''ispu-detail'') v"
  then have "set (py ''ispu-detail'') \<subseteq> set v" by (rule contains_set)
  moreover have "105 \<in> set (py ''ispu-detail'')" by (simp add: py_def)
  ultimately have "105 \<in> set v" by blast
  then show ?thesis by (intro bexI [of _ 105]) simp_all
qed

lemma takeWhile_eq_replicate:
  "takeWhile (\<lambda>c. c = ch) xs = replicate (length (takeWhile (\<lambda>c. c = ch) xs)) ch"
  by (induction xs) auto

lemma rstrip1_decomp: "\<exists>k. s = rstrip1 ch s @ replicate k ch"
proof -
  let ?P = "\<lambda>c. c = ch"
  have "rev s = takeWhile ?P (rev s) @ dropWhile ?P (rev s)" by simp
  then have "rev (rev s) = rev (dropWhile ?P (rev s)) @ rev (takeWhile ?P (rev s))"
    by (metis rev_append)
  moreover have "rev (takeWhile ?P (rev s)) = replicate (length (takeWhile ?P (rev s))) ch"
    using takeWhile_eq_replicate [of ch "rev s"] by (metis rev_replicate)
  ultimately have "s = rstrip1 ch s @ replicate (length (takeWhile ?P (rev s))) ch"
    by (simp add: rstrip1_def)
  then show ?thesis ..
qed

lemma rstrip1_last:
  assumes "\<exists>c\<in>set s. c \<noteq> ch"
  shows "rstrip1 ch s \<noteq> [] \<and> last (rstrip1 ch s) \<noteq> ch"
proof -
  let ?d = "dropWhile (\<lambda>c. c = ch) (rev s)"
  have ne: "?d \<noteq> []" using assms by (auto simp: dropWhile_eq_Nil_conv)
  then have "hd ?d \<noteq> ch" using hd_dropWhile [of "\<lambda>c. c = ch" "rev s"] by simp
  moreover have "last (rev ?d) = hd ?d" using ne by (simp add: last_rev)
  ultimately show ?thesis using ne by (simp add: rstrip1_def)
qed

lemma split_on_snoc_sep: "split_on sep (s @ [sep]) = split_on sep s @ [[]]"
proof (induction s)
  case Nil
  show ?case by simp
next
  case (Cons c cs)
  obtain w ws where "split_on sep cs = w # ws"
    using split_on_not_Nil [of sep cs] by (cases "split_on sep cs") auto
  then show ?case using Cons.IH by simp
qed

lemma split_on_replicate:
  "split_on sep (s @ replicate k sep) = split_on sep s @ replicate k []"
proof (induction k)
  case 0
  show ?case by simp
next
  case (Suc k)
  have "s @ replicate (Suc k) sep = (s @ replicate k sep) @ [sep]"
    by (simp add: replicate_append_same)
  then have "split_on sep (s @ replicate (Suc k) sep)
      = split_on sep (s @ replicate k sep) @ [[]]"
    by (simp only: split_on_snoc_sep)
  then show ?case using Suc.IH by (simp add: replicate_append_same)
qed

lemma last_split_on_nonempty:
  "s \<noteq> [] \<Longrightarrow> last s \<noteq> sep \<Longrightarrow> last (split_on sep s) \<noteq> []"
proof (induction s)
  case Nil
  then show ?case by simp
next
  case (Cons c cs)
  obtain w ws where sp: "split_on sep cs = w # ws"
    using split_on_not_Nil [of sep cs] by (cases "split_on sep cs") auto
  show ?case
  proof (cases "cs = []")
    case True
    then show ?thesis using Cons.prems by simp
  next
    case False
    then have "last (split_on sep cs) \<noteq> []" using Cons by simp
    then show ?thesis using sp by (auto split: if_splits)
  qed
qed

lemma filter_nonempty_replicate_Nil:
  "filter (\<lambda>w. w \<noteq> []) (xs @ replicate k []) = filter (\<lambda>w. w \<noteq> []) xs"
  by (induction k) (simp_all add: replicate_append_same [symmetric] del: replicate_Suc)

lemma last_filter_keeps:
  "xs \<noteq> [] \<Longrightarrow> P (last xs) \<Longrightarrow> filter P xs \<noteq> [] \<and> last (filter P xs) = last xs"
  by (induction xs) (auto split: if_splits)

lemma segment_of_reference:
  assumes "\<exists>c\<in>set ref. c \<noteq> 47"
  shows "last_nonempty_segment ref = Some (last (split_on 47 (rstrip1 47 ref)))
         \<and> last (split_on 47 (rstrip1 47 ref)) \<noteq> []"
proof -
  let ?u = "rstrip1 47 ref"
  obtain k where k: "ref = ?u @ replicate k 47" using rstrip1_decomp by blast
  have u: "?u \<noteq> []" "last ?u \<noteq> 47" using rstrip1_last [OF assms] by simp_all
  then have lastne: "last (split_on 47 ?u) \<noteq> []" by (rule last_split_on_nonempty)
  have "split_on 47 ref = split_on 47 ?u @ replicate k []"
    using k split_on_replicate [of 47 ?u k] by simp
  then have "filter (\<lambda>w. w \<noteq> []) (split_on 47 ref) = filter (\<lambda>w. w \<noteq> []) (split_on 47 ?u)"
    by (simp only: filter_nonempty_replicate_Nil)
  moreover have "filter (\<lambda>w. w \<noteq> []) (split_on 47 ?u) \<noteq> []
      \<and> last (filter (\<lambda>w. w \<noteq> []) (split_on 47 ?u)) = last (split_on 47 ?u)"
    using split_on_not_Nil lastne by (rule last_filter_keeps)
  ultimately show ?thesis using lastne
    by (auto simp: last_nonempty_segment_def split: list.splits)
qed

section \<open>The record of one station item\<close>

lemma select_one_SomeD: "select_one sel t = Some d \<Longrightarrow> matches sel (fst d) (snd d)"
proof -
  assume "select_one sel t = Some d"
  then obtain ds where "select sel t = d # ds"
    by (auto simp: select_one_def split: list.splits)
  then have "d \<in> set (filter (\<lambda>d. matches sel (fst d) (snd d)) (descendants (fst t) (snd t)))"
    by (simp add: select_def)
  then show ?thesis by simp
qed

lemma matches_detail:
  "matches SEL_DETAIL anc n \<Longrightarrow>
   \<exists>v. getitem n (py ''href'') = Inr v \<and> contains (py ''ispu-detail'') v"
  by (cases n) (auto simp: SEL_DETAIL_def split: option.splits)

lemma link_fields_found:
  assumes "select_one SEL_DETAIL li = Some a"
  shows "\<exists>href seg. getitem (snd a) (py ''href'') = Inr href
           \<and> contains (py ''ispu-detail'') href
           \<and> last_nonempty_segment href = Some seg \<and> seg \<noteq> []
           \<and> link_fields (Some a) = Inr (Some (slug_to_name seg), Some href)"
proof -
  obtain href where h: "getitem (snd a) (py ''href'') = Inr href"
      "contains (py ''ispu-detail'') href"
    using select_one_SomeD [OF assms] matches_detail by blast
  let ?seg = "last (split_on 47 (rstrip1 47 href))"
  have seg: "last_nonempty_segment href = Some ?seg" "?seg \<noteq> []"
    using segment_of_reference [OF marker_not_only_slashes [OF h(2)]] by simp_all
  have "index_last (split_on 47 (rstrip1 47 href)) = Inr ?seg"
    using split_on_not_Nil [of 47 "rstrip1 47 href"]
    by (simp add: index_last_def split: list.splits)
  then have "link_fields (Some a) = Inr (Some (slug_to_name ?seg), Some href)"
    using h(1) by (simp add: link_fields_def)
  then show ?thesis using h seg by blast
qed

lemma link_fields_absent: "link_fields None = Inr (None, None)"
  by (simp add: link_fields_def)

lemma link_fields_total:
  "\<exists>station url. link_fields (select_one SEL_DETAIL li) = Inr (station, url)"
proof (cases "select_one SEL_DETAIL li")
  case None
  then show ?thesis by (simp add: link_fields_absent)
next
  case (Some a)
  then show ?thesis using link_fields_found [OF Some] by auto
qed

lemma item_record_of_link_fields:
  "link_fields (select_one SEL_DETAIL li) = Inr (station, url) \<Longrightarrow>
   item_record ts li =
     Inr [(py ''timestamp'', Some ts), (py ''station'', station),
          (py ''aqi'', text_or_none (select_one SEL_VALUE li)),
          (py ''pollutant'', text_or_none (select_one SEL_POLLUTANT li)),
          (py ''status'', text_or_none (select_one SEL_STATUS li)),
          (py ''detail_url'', url)]"
  by (simp add: item_record_def)

lemma item_record_total:
  "\<exists>r station. item_record ts li = Inr r \<and> map fst r = fieldnames
     \<and> dict_getitem r (py ''timestamp'') = Inr (Some ts)
     \<and> dict_getitem r (py ''station'') = Inr station
     \<and> (station = None \<longleftrightarrow> select_one SEL_DETAIL li = None)
     \<and> (station \<noteq> None \<longrightarrow> truthy station)"
proof (cases "select_one SEL_DETAIL li")
  case None
  then have "link_fields (select_one SEL_DETAIL li) = Inr (None, None)"
    by (simp add: link_fields_absent)
  from item_record_of_link_fields [OF this, of ts] None show ?thesis
    by (simp add: fieldnames_def dict_getitem_def)
next
  case (Some a)
  then obtain href seg where "seg \<noteq> []"
      "link_fields (select_one SEL_DETAIL li) = Inr (Some (slug_to_name seg), Some href)"
    using link_fields_found [OF Some] by auto
  from this(1) item_record_of_link_fields [OF this(2), of ts] Some show ?thesis
    by (simp add: fieldnames_def dict_getitem_def truthy_def)
qed

section \<open>The records of a run\<close>

lemma scrape_loop_append:
  "\<exists>rs. scrape_loop ts lis acc = Inr (acc @ rs)
     \<and> list_all (\<lambda>r. \<exists>li\<in>set lis. item_record ts li = Inr r
                        \<and> truthy (projr (dict_getitem r (py ''station'')))) rs
     \<and> (list_all (\<lambda>li. select_one SEL_DETAIL li \<noteq> None) lis
          \<longrightarrow> list_all2 (\<lambda>li r. item_record ts li = Inr r) lis rs)"
proof (induction lis arbitrary: acc)
  case Nil
  show ?case by simp
next
  case (Cons li lis)
  obtain r station where r: "item_record ts li = Inr r"
      "dict_getitem r (py ''station'') = Inr station"
      "station = None \<longleftrightarrow> select_one SEL_DETAIL li = None"
      "station \<noteq> None \<longrightarrow> truthy station"
    using item_record_total [of ts li] by auto
  let ?acc = "if truthy station then acc @ [r] else acc"
  obtain rs where rs: "scrape_loop ts lis ?acc = Inr (?acc @ rs)"
      "list_all (\<lambda>r. \<exists>li\<in>set lis. item_record ts li = Inr r
                        \<and> truthy (projr (dict_getitem r (py ''station'')))) rs"
      "list_all (\<lambda>li. select_one SEL_DETAIL li \<noteq> None) lis
          \<longrightarrow> list_all2 (\<lambda>li r. item_record ts li = Inr r) lis rs"
    using Cons.IH [of ?acc] by blast
  have step: "scrape_loop ts (li # lis) acc = scrape_loop ts lis ?acc"
    using r(1,2) by simp
  let ?out = "if truthy station then r # rs else rs"
  have "scrape_loop ts (li # lis) acc = Inr (acc @ ?out)"
    using step rs(1) by simp
  moreover have "list_all (\<lambda>r. \<exists>li\<in>set (li # lis). item_record ts li = Inr r
                        \<and> truthy (projr (dict_getitem r (py ''station'')))) ?out"
    using rs(2) r(1,2) by (auto simp: list_all_iff)
  moreover have "list_all (\<lambda>li. select_one SEL_DETAIL li \<noteq> None) (li # lis)
          \<longrightarrow> list_all2 (\<lambda>li r. item_record ts li = Inr r) (li # lis) ?out"
    using rs(3) r by auto
  ultimately show ?case by blast
qed

lemma scrape_ok:
  "\<not> (400 \<le> status \<and> status < 600) \<Longrightarrow>
   scrape (Response status soup) now
     = scrape_loop (strftime now) (select SEL_ITEMS ([], soup)) []"
  by (auto simp: scrape_def)

lemma scrape_InrD:
  assumes "scrape resp now = Inr records"
  shows "\<exists>status soup. resp = Response status soup
           \<and> scrape_loop (strftime now) (select SEL_ITEMS ([], soup)) [] = Inr records"
  using assms by (cases resp) (auto simp: scrape_def split: if_splits)

lemma scraped_record:
  assumes "scrape resp now = Inr records" and "r \<in> set records"
  shows "\<exists>li station. item_record (strftime now) li = Inr r \<and> map fst r = fieldnames
           \<and> dict_getitem r (py ''timestamp'') = Inr (Some (strftime now))
           \<and> dict_getitem r (py ''station'') = Inr station \<and> truthy station"
proof -
  obtain soup where
    loop: "scrape_loop (strftime now) (select SEL_ITEMS ([], soup)) [] = Inr records"
    using scrape_InrD [OF assms(1)] by blast
  let ?lis = "select SEL_ITEMS ([], soup)"
  obtain rs where "scrape_loop (strftime now) ?lis [] = Inr ([] @ rs)"
      "list_all (\<lambda>r. \<exists>li\<in>set ?lis. item_record (strftime now) li = Inr r
                        \<and> truthy (projr (dict_getitem r (py ''station'')))) rs"
    using scrape_loop_append [of "strftime now" ?lis "[]"] by blast
  then have "rs = records" and
    "\<forall>r\<in>set rs. \<exists>li\<in>set ?lis. item_record (strftime now) li = Inr r
                        \<and> truthy (projr (dict_getitem r (py ''station'')))"
    using loop by (simp_all add: list_all_iff)
  then obtain li where li: "item_record (strftime now) li = Inr r"
      "truthy (projr (dict_getitem r (py ''station'')))"
    using assms(2) by blast
  obtain r' station where "item_record (strftime now) li = Inr r'" "map fst r' = fieldnames"
      "dict_getitem r' (py ''timestamp'') = Inr (Some (strftime now))"
      "dict_getitem r' (py ''station'') = Inr station"
    using item_record_total [of "strftime now" li] by auto
  then have "map fst r = fieldnames"
      "dict_getitem r (py ''timestamp'') = Inr (Some (strftime now))"
      "dict_getitem r (py ''station'') = Inr station" "truthy station"
    using li by simp_all
  then show ?thesis using li(1) by blast
qed

section \<open>The format of the capture time\<close>








section \<open>Writing the files\<close>

lemma of_char_encodable: "utf8_encodable (of_char c)"
proof -
  have "of_char c < (256::nat)" by simp
  then have "of_char c < (0xD800::nat)" by linarith
  then show ?thesis by (simp add: utf8_encodable_def)
qed

lemma py_encodable [simp]: "str_encodable (py s)"
  by (simp add: str_encodable_def py_def list_all_iff of_char_encodable)

lemma str_encodable_append [simp]:
  "str_encodable (a @ b) \<longleftrightarrow> str_encodable a \<and> str_encodable b"
  by (simp add: str_encodable_def)

lemma str_encodable_Nil [simp]: "str_encodable []"
  by (simp add: str_encodable_def)

lemma str_encodable_Cons: "str_encodable (c # cs) \<longleftrightarrow> utf8_encodable c \<and> str_encodable cs"
  by (simp add: str_encodable_def)

lemma str_encodable_concat:
  "list_all str_encodable xs \<Longrightarrow> str_encodable (concat xs)"
  by (induction xs) simp_all

lemma write_chunks_encodable:
  "list_all str_encodable chunks \<Longrightarrow>
   write_chunks chunks content = (None, content @ concat chunks)"
  by (induction chunks arbitrary: content) (simp_all add: file_write_def)

lemma json_char_encodable: "utf8_encodable c \<Longrightarrow> str_encodable (json_char c)"
  by (auto simp: json_char_def str_encodable_def utf8_encodable_def hex_digit_def)

lemma json_string_encodable: "str_encodable s \<Longrightarrow> str_encodable (json_string s)"
proof -
  assume s: "str_encodable s"
  have "str_encodable (json_char c)" if "c \<in> set s" for c
    using that s by (intro json_char_encodable) (simp add: str_encodable_def list_all_iff)
  then have "list_all str_encodable (map json_char s)"
    by (simp add: list_all_iff)
  then have "str_encodable (concat (map json_char s))" by (rule str_encodable_concat)
  then show ?thesis by (simp add: json_string_def str_encodable_Cons utf8_encodable_def)
qed

lemma json_items_encodable:
  "dict_encodable d \<Longrightarrow> list_all str_encodable (json_items first d)"
proof (induction d arbitrary: first)
  case Nil
  show ?case by simp
next
  case (Cons kv d)
  obtain key v where kv: "kv = (key, v)" by (cases kv)
  have k: "str_encodable key" and v: "case v of None \<Rightarrow> True | Some s \<Rightarrow> str_encodable s"
    and d: "dict_encodable d"
    using Cons.prems kv by (simp_all add: dict_encodable_def)
  have "str_encodable (json_value v)"
    using v by (cases v) (simp_all add: json_value_def json_string_encodable)
  then show ?case
    using kv k Cons.IH [OF d, of False]
    by (simp add: json_string_encodable str_encodable_Cons utf8_encodable_def)
qed

lemma json_dict_chunks_encodable:
  "dict_encodable d \<Longrightarrow> list_all str_encodable (json_dict_chunks d)"
  by (simp add: json_dict_chunks_def json_items_encodable str_encodable_Cons utf8_encodable_def)

lemma json_list_items_encodable:
  "list_all dict_encodable ds \<Longrightarrow> list_all str_encodable (json_list_items first ds)"
  by (induction ds arbitrary: first)
    (simp_all add: json_dict_chunks_encodable str_encodable_Cons utf8_encodable_def)

lemma save_json_encodable:
  "list_all dict_encodable records \<Longrightarrow>
   save_json records fs = (None, fs(OUTPUT_JSON \<mapsto> concat (json_chunks records)))"
proof -
  assume "list_all dict_encodable records"
  then have "list_all str_encodable (json_chunks records)"
    by (simp add: json_chunks_def json_list_items_encodable str_encodable_Cons utf8_encodable_def)
  then show ?thesis by (simp add: save_json_def write_chunks_encodable)
qed

section \<open>The rows of the CSV log\<close>

lemma fieldnames_six:
  "fieldnames = [py ''timestamp'', py ''station'', py ''aqi'', py ''pollutant'',
                 py ''status'', py ''detail_url''] \<and> distinct fieldnames"
  by (simp add: fieldnames_def)

lemma output_paths_differ: "OUTPUT_JSON \<noteq> OUTPUT_CSV"
  by (simp add: OUTPUT_JSON_def OUTPUT_CSV_def)

lemma header_row: "csv_row fieldnames = csv_header"
  by (simp add: csv_row_def csv_field_def fieldnames_def csv_header_def py_def)

lemma dict_to_list_record_row:
  "map fst r = fieldnames \<Longrightarrow> dict_to_list r = Inr (record_row r)"
  by (auto simp: dict_to_list_def list_ex_iff fieldnames_def record_row_def cell_of_def
      split: option.splits)

lemma cell_encodable: "dict_encodable r \<Longrightarrow> str_encodable (cell_of r key)"
proof -
  assume r: "dict_encodable r"
  show ?thesis
  proof (cases "map_of r (py key)")
    case None
    then show ?thesis by (simp add: cell_of_def)
  next
    case (Some v)
    then have "(py key, v) \<in> set r" by (rule map_of_SomeD)
    then have "case v of None \<Rightarrow> True | Some s \<Rightarrow> str_encodable s"
      using r by (auto simp: dict_encodable_def list_all_iff)
    then show ?thesis using Some by (cases v) (simp_all add: cell_of_def)
  qed
qed

lemma csv_field_encodable: "str_encodable s \<Longrightarrow> str_encodable (csv_field s)"
proof -
  assume s: "str_encodable s"
  have "list_all str_encodable (map (\<lambda>c. if c = 34 then [34, 34] else [c]) s)"
    using s by (auto simp: str_encodable_def list_all_iff utf8_encodable_def)
  then have "str_encodable (concat (map (\<lambda>c. if c = 34 then [34, 34] else [c]) s))"
    by (rule str_encodable_concat)
  then show ?thesis using s by (simp add: csv_field_def str_encodable_Cons utf8_encodable_def)
qed

lemma join_encodable:
  "str_encodable sep \<Longrightarrow> list_all str_encodable ws \<Longrightarrow> str_encodable (join sep ws)"
  by (induction sep ws rule: join.induct) simp_all

lemma csv_row_encodable:
  "list_all str_encodable cells \<Longrightarrow> str_encodable (csv_row cells)"
proof -
  assume "list_all str_encodable cells"
  then have "list_all str_encodable (map csv_field cells)"
    by (simp add: list_all_iff csv_field_encodable)
  then have "str_encodable (join [44] (map csv_field cells))"
    by (intro join_encodable) (simp_all add: str_encodable_Cons utf8_encodable_def)
  then show ?thesis by (simp add: csv_row_def str_encodable_Cons utf8_encodable_def)
qed

lemma record_row_encodable: "dict_encodable r \<Longrightarrow> list_all str_encodable (record_row r)"
  by (simp add: record_row_def cell_encodable)

lemma writerows_encodable:
  "list_all (\<lambda>r. map fst r = fieldnames) rs \<Longrightarrow> list_all dict_encodable rs \<Longrightarrow>
   writerows rs content = (None, content @ concat (map (\<lambda>r. csv_row (record_row r)) rs))"
proof (induction rs arbitrary: content)
  case Nil
  show ?case by simp
next
  case (Cons r rs)
  then have r: "map fst r = fieldnames" "dict_encodable r"
    and rs: "list_all (\<lambda>r. map fst r = fieldnames) rs" "list_all dict_encodable rs"
    by simp_all
  have "str_encodable (csv_row (record_row r))"
    using r(2) by (intro csv_row_encodable record_row_encodable)
  then have "writerows (r # rs) content = writerows rs (content @ csv_row (record_row r))"
    using dict_to_list_record_row [OF r(1)] by (simp add: file_write_def)
  then show ?case using Cons.IH [OF rs] by simp
qed

section \<open>Reading back the rows that were written\<close>

lemma csv_read_quoted:
  "csv_read InQuoted f row rows
     (concat (map (\<lambda>c. if c = 34 then [34, 34] else [c]) s) @ 34 # k)
   = csv_read AfterQuote (f @ s) row rows k"
  by (induction s arbitrary: f) simp_all

lemma csv_read_plain:
  "\<not> list_ex (\<lambda>c. c = 44 \<or> c = 34 \<or> c = 13 \<or> c = 10) s \<Longrightarrow>
   csv_read InPlain f row rows (s @ k) = csv_read InPlain (f @ s) row rows k"
  by (induction s arbitrary: f) simp_all

lemma csv_read_field:
  assumes "st = RowStart \<or> st = FieldStart" and "d = 44 \<or> d = 13"
  shows "csv_read st [] row rows (csv_field s @ d # k)
         = csv_read (if d = 44 then FieldStart else AfterCR) [] (row @ [s]) rows k"
proof (cases "list_ex (\<lambda>c. c = 44 \<or> c = 34 \<or> c = 13 \<or> c = 10) s")
  case True
  then have "csv_field s @ d # k
      = 34 # concat (map (\<lambda>c. if c = 34 then [34, 34] else [c]) s) @ 34 # d # k"
    by (simp add: csv_field_def)
  then have "csv_read st [] row rows (csv_field s @ d # k)
      = csv_read InQuoted [] row rows
          (concat (map (\<lambda>c. if c = 34 then [34, 34] else [c]) s) @ 34 # d # k)"
    using assms(1) by auto
  also have "\<dots> = csv_read AfterQuote ([] @ s) row rows (d # k)"
    by (rule csv_read_quoted)
  also have "\<dots> = csv_read (if d = 44 then FieldStart else AfterCR) [] (row @ [s]) rows k"
    using assms(2) by auto
  finally show ?thesis .
next
  case False
  then have plain: "csv_field s = s" by (simp add: csv_field_def)
  show ?thesis
  proof (cases s)
    case Nil
    then show ?thesis using plain assms by auto
  next
    case (Cons c cs)
    then have c: "c \<noteq> 44" "c \<noteq> 34" "c \<noteq> 13" "c \<noteq> 10"
      and cs: "\<not> list_ex (\<lambda>c. c = 44 \<or> c = 34 \<or> c = 13 \<or> c = 10) cs"
      using False by simp_all
    have "csv_read st [] row rows (csv_field s @ d # k)
        = csv_read InPlain [c] row rows (cs @ d # k)"
      using plain Cons c assms(1) by auto
    also have "\<dots> = csv_read InPlain ([c] @ cs) row rows (d # k)"
      using cs by (rule csv_read_plain)
    also have "\<dots> = csv_read (if d = 44 then FieldStart else AfterCR) [] (row @ [s]) rows k"
      using Cons assms(2) by auto
    finally show ?thesis .
  qed
qed

lemma csv_read_fields:
  assumes "st = RowStart \<or> st = FieldStart" and "cells \<noteq> []"
  shows "csv_read st [] row rows (join [44] (map csv_field cells) @ 13 # 10 # k)
         = csv_read RowStart [] [] (rows @ [row @ cells]) k"
  using assms
proof (induction cells arbitrary: st row)
  case Nil
  then show ?case by simp
next
  case (Cons s cells)
  show ?case
  proof (cases cells)
    case Nil
    then show ?thesis
      using csv_read_field [OF Cons.prems(1), of 13 row rows s "10 # k"] by simp
  next
    case (Cons t ts)
    have "csv_read st [] row rows (join [44] (map csv_field (s # cells)) @ 13 # 10 # k)
        = csv_read st [] row rows
            (csv_field s @ 44 # (join [44] (map csv_field cells) @ 13 # 10 # k))"
      using Cons by simp
    also have "\<dots> = csv_read FieldStart [] (row @ [s]) rows
        (join [44] (map csv_field cells) @ 13 # 10 # k)"
      using csv_read_field [OF Cons.prems(1), of 44 row rows s] by simp
    also have "\<dots> = csv_read RowStart [] [] (rows @ [(row @ [s]) @ cells]) k"
      using Cons by (intro Cons.IH) simp_all
    finally show ?thesis by simp
  qed
qed

lemma csv_read_row:
  "2 \<le> length cells \<Longrightarrow>
   csv_read RowStart [] [] rows (csv_row cells @ k) = csv_read RowStart [] [] (rows @ [cells]) k"
proof -
  assume len: "2 \<le> length cells"
  then have "cells \<noteq> []" "cells \<noteq> [[]]" by auto
  then show ?thesis
    using csv_read_fields [of RowStart cells "[]" rows k] by (simp add: csv_row_def)
qed

lemma csv_read_rows:
  "list_all (\<lambda>cells. 2 \<le> length cells) rws \<Longrightarrow>
   csv_read RowStart [] [] rows (concat (map csv_row rws) @ k)
     = csv_read RowStart [] [] (rows @ rws) k"
proof (induction rws arbitrary: rows)
  case Nil
  show ?case by simp
next
  case (Cons cells rws)
  then have "2 \<le> length cells" and rest: "list_all (\<lambda>cells. 2 \<le> length cells) rws"
    by simp_all
  then have "csv_read RowStart [] [] rows (concat (map csv_row (cells # rws)) @ k)
      = csv_read RowStart [] [] (rows @ [cells]) (concat (map csv_row rws) @ k)"
    using csv_read_row [of cells rows "concat (map csv_row rws) @ k"] by simp
  then show ?case using Cons.IH [OF rest, of "rows @ [cells]"] by simp
qed

lemma csv_rows_of_records:
  "csv_rows (concat (map (\<lambda>r. csv_row (record_row r)) records)) = Some (map record_row records)"
proof -
  have "list_all (\<lambda>cells. 2 \<le> length cells) (map record_row records)"
    by (simp add: list_all_iff record_row_def)
  then have "csv_read RowStart [] [] [] (concat (map csv_row (map record_row records)) @ [])
      = csv_read RowStart [] [] ([] @ map record_row records) []"
    by (rule csv_read_rows)
  then show ?thesis by (simp add: csv_rows_def comp_def)
qed

lemma csv_rows_header: "csv_rows csv_header = Some [fieldnames]"
proof -
  have "csv_read RowStart [] [] [] (csv_row fieldnames @ []) = csv_read RowStart [] [] ([] @ [fieldnames]) []"
    by (rule csv_read_row) (simp add: fieldnames_def)
  then show ?thesis by (simp add: csv_rows_def header_row)
qed

section \<open>The sample pages, evaluated\<close>

lemma marker_in_samples:
  "contains (py ''ispu-detail'') (py ''/ispu-detail/us-embassy-1/'')"
  "contains (py ''ispu-detail'') (py ''/ispu-detail/dki1'')"
  by (simp_all add: py_def)

lemma slug_of_samples:
  "index_last (split_on 47 (rstrip1 47 (py ''/ispu-detail/us-embassy-1/''))) = Inr (py ''us-embassy-1'')"
  "index_last (split_on 47 (rstrip1 47 (py ''/ispu-detail/dki1''))) = Inr (py ''dki1'')"
  by (simp_all add: py_def rstrip1_def index_last_def)

lemma name_of_samples:
  "slug_to_name (py ''us-embassy-1'') = py ''Us Embassy 1''"
  "slug_to_name (py ''dki1'') = py ''Dki1''"
  by (simp_all add: slug_to_name_def py_def title_def str_replace1_def
      is_cased_def to_lower_full_def to_title_full_def)

lemma strip_samples:
  "strip (py '' 57 '') = py ''57''"
  "strip (py ''PM 2.5'') = py ''PM 2.5''"
  "strip (py ''Sedang'') = py ''Sedang''"
  "strip (py ''SO2'') = py ''SO2''"
  "strip (py ''Baik'') = py ''Baik''"
  "strip (py ''12'') = py ''12''"
  by (simp_all add: strip_def is_space_def py_def)

lemma segment_samples:
  "last_nonempty_segment (py ''/ispu-detail/us-embassy-1/'') = Some (py ''us-embassy-1'')"
  by (simp add: last_nonempty_segment_def py_def)

lemma strftime_sample: "strftime sample_now = py ''2026-11-04T09:05:00Z''"
  by (simp add: strftime_def sample_now_def zero_pad_def digits.simps py_def)

lemma list_ex_upt_Suc:
  "list_ex P [0..<Suc k] = (P 0 \<or> list_ex (\<lambda>i. P (Suc i)) [0..<k])"
proof -
  have "(\<exists>i<Suc k. P i) = (P 0 \<or> (\<exists>i<k. P (Suc i)))"
    by (auto simp: less_Suc_eq_0_disj)
  then show ?thesis by (simp add: list_ex_iff Bex_def del: upt_Suc)
qed

lemma matches_Descendant_Cons:
  "matches (Descendant s c) (p # ps) n =
     (matches_compound c n
      \<and> (matches s ps p \<or> list_ex (\<lambda>i. matches s (drop (Suc i) ps) (ps ! i)) [0..<length ps]))"
  using list_ex_upt_Suc [of "\<lambda>i. matches s (drop (Suc i) (p # ps)) ((p # ps) ! i)" "length ps"]
  by (simp del: upt_Suc)

lemma matches_Descendant_Nil: "matches (Descendant s c) [] n = False"
  by simp

lemmas select_defs = item_record_def select_one_def select_def value_box_def
  SEL_DETAIL_def SEL_VALUE_def SEL_POLLUTANT_def SEL_STATUS_def VALUE_BOX_def
  link_fields_def text_or_none_def get_text_strip_def
  matches_Descendant_Cons matches_Descendant_Nil
  marker_in_samples slug_of_samples name_of_samples strip_samples

lemma item_full_record:
  "item_record ts (anc, item_full) =
     Inr [(py ''timestamp'', Some ts), (py ''station'', Some (py ''Us Embassy 1'')),
          (py ''aqi'', Some (py ''57'')), (py ''pollutant'', Some (py ''PM 2.5'')),
          (py ''status'', Some (py ''Sedang'')),
          (py ''detail_url'', Some (py ''/ispu-detail/us-embassy-1/''))]"
  by (simp add: select_defs item_full_def del: matches.simps(3))

lemma item_no_aqi_record:
  "item_record ts (anc, item_no_aqi) =
     Inr [(py ''timestamp'', Some ts), (py ''station'', Some (py ''Dki1'')),
          (py ''aqi'', None), (py ''pollutant'', Some (py ''SO2'')),
          (py ''status'', Some (py ''Baik'')),
          (py ''detail_url'', Some (py ''/ispu-detail/dki1''))]"
  by (simp add: select_defs item_no_aqi_def del: matches.simps(3))

lemma item_no_link_record:
  "item_record ts (anc, item_no_link) =
     Inr [(py ''timestamp'', Some ts), (py ''station'', None),
          (py ''aqi'', Some (py ''12'')), (py ''pollutant'', None),
          (py ''status'', None), (py ''detail_url'', None)]"
  by (simp add: select_defs item_no_link_def del: matches.simps(3))

lemma detail_of_samples:
  "select_one SEL_DETAIL (anc, item_full)
     = Some (item_full # anc,
             Element (py ''a'') [] [(py ''href'', py ''/ispu-detail/us-embassy-1/'')] [])"
  "select_one SEL_DETAIL (anc, item_no_aqi)
     = Some (item_no_aqi # anc, Element (py ''a'') [] [(py ''href'', py ''/ispu-detail/dki1'')] [])"
  "select_one SEL_DETAIL (anc, item_no_link) = None"
  by (simp_all add: select_one_def select_def SEL_DETAIL_def marker_in_samples
      item_full_def item_no_aqi_def item_no_link_def value_box_def)

lemma others_of_item_no_aqi:
  "select_one SEL_VALUE (anc, item_no_aqi) = None"
  "select_one SEL_POLLUTANT (anc, item_no_aqi) \<noteq> None"
  "select_one SEL_STATUS (anc, item_no_aqi) \<noteq> None"
  by (simp_all add: select_one_def select_def SEL_VALUE_def SEL_POLLUTANT_def SEL_STATUS_def
      VALUE_BOX_def item_no_aqi_def value_box_def matches_Descendant_Cons del: matches.simps(3))

lemma items_of_pages:
  "select SEL_ITEMS ([], page []) = []"
  "select SEL_ITEMS ([], page [item_full, item_no_link])
     = [([station_list [item_full, item_no_link], page [item_full, item_no_link]], item_full),
        ([station_list [item_full, item_no_link], page [item_full, item_no_link]], item_no_link)]"
  "select SEL_ITEMS ([], page [item_full, item_no_aqi])
     = [([station_list [item_full, item_no_aqi], page [item_full, item_no_aqi]], item_full),
        ([station_list [item_full, item_no_aqi], page [item_full, item_no_aqi]], item_no_aqi)]"
  by (simp_all add: select_def SEL_ITEMS_def page_def station_list_def
      item_full_def item_no_aqi_def item_no_link_def value_box_def)

lemma scrape_samples:
  "scrape (Response 200 (page [item_full, item_no_link])) sample_now =
     Inr [[(py ''timestamp'', Some (py ''2026-11-04T09:05:00Z'')),
           (py ''station'', Some (py ''Us Embassy 1'')),
           (py ''aqi'', Some (py ''57'')), (py ''pollutant'', Some (py ''PM 2.5'')),
           (py ''status'', Some (py ''Sedang'')),
           (py ''detail_url'', Some (py ''/ispu-detail/us-embassy-1/''))]]"
  "scrape (Response 300 (page [item_full, item_no_aqi])) sample_now =
     Inr [[(py ''timestamp'', Some (py ''2026-11-04T09:05:00Z'')),
           (py ''station'', Some (py ''Us Embassy 1'')),
           (py ''aqi'', Some (py ''57'')), (py ''pollutant'', Some (py ''PM 2.5'')),
           (py ''status'', Some (py ''Sedang'')),
           (py ''detail_url'', Some (py ''/ispu-detail/us-embassy-1/''))],
          [(py ''timestamp'', Some (py ''2026-11-04T09:05:00Z'')),
           (py ''station'', Some (py ''Dki1'')),
           (py ''aqi'', None), (py ''pollutant'', Some (py ''SO2'')),
           (py ''status'', Some (py ''Baik'')),
           (py ''detail_url'', Some (py ''/ispu-detail/dki1''))]]"
  by (simp_all add: scrape_def items_of_pages item_full_record item_no_aqi_record
      item_no_link_record strftime_sample dict_getitem_def truthy_def)

lemma csv_header_encodable: "str_encodable csv_header"
  by (simp add: csv_header_def str_encodable_Cons utf8_encodable_def)

lemma append_csv_encodable:
  assumes "list_all (\<lambda>r. map fst r = fieldnames) rs" and "list_all dict_encodable rs"
  shows "append_csv rs fs =
     (None, fs(OUTPUT_CSV \<mapsto>
        (case fs OUTPUT_CSV of None \<Rightarrow> csv_header | Some old \<Rightarrow> old)
          @ concat (map (\<lambda>r. csv_row (record_row r)) rs)))"
proof -
  have w: "writerows rs content
      = (None, content @ concat (map (\<lambda>r. csv_row (record_row r)) rs))" for content
    using assms by (rule writerows_encodable)
  show ?thesis
    by (cases "fs OUTPUT_CSV")
      (simp_all add: append_csv_def w file_write_def header_row csv_header_encodable)
qed

lemma words_samples:
  "title_each_word (py ''us-embassy-1'') = py ''Us Embassy 1''"
  "title_each_word (py ''3rd-street'') = py ''3rd Street''"
  by (simp_all add: title_each_word_def slug_words_def capitalize_word_def
      upper_case_def lower_case_def py_def)

lemma plain_samples:
  "ascii (py ''us-embassy-1'')"
  "list_all letters_first (slug_words (py ''us-embassy-1''))"
  by (simp_all add: ascii_def slug_words_def letters_first_def is_letter_def py_def)

lemma item_third_record:
  "select_one SEL_DETAIL (anc, item_third)
     = Some (item_third # anc,
             Element (py ''a'') [] [(py ''href'', py ''/ispu-detail/3rd-street'')] [])"
  "last_nonempty_segment (py ''/ispu-detail/3rd-street'') = Some (py ''3rd-street'')"
  "item_record ts (anc, item_third) =
     Inr [(py ''timestamp'', Some ts), (py ''station'', Some (py ''3Rd Street'')),
          (py ''aqi'', None), (py ''pollutant'', None), (py ''status'', None),
          (py ''detail_url'', Some (py ''/ispu-detail/3rd-street''))]"
proof -
  have marker: "contains (py ''ispu-detail'') (py ''/ispu-detail/3rd-street'')"
    by (simp add: py_def)
  have slug: "index_last (split_on slash (rstrip1 slash (py ''/ispu-detail/3rd-street'')))
      = Inr (py ''3rd-street'')"
    by (simp add: py_def rstrip1_def index_last_def)
  have name: "slug_to_name (py ''3rd-street'') = py ''3Rd Street''"
    by (simp add: slug_to_name_def py_def title_def str_replace1_def
        is_cased_def to_lower_full_def to_title_full_def)
  show "select_one SEL_DETAIL (anc, item_third)
     = Some (item_third # anc,
             Element (py ''a'') [] [(py ''href'', py ''/ispu-detail/3rd-street'')] [])"
    by (simp add: select_one_def select_def SEL_DETAIL_def marker item_third_def)
  show "last_nonempty_segment (py ''/ispu-detail/3rd-street'') = Some (py ''3rd-street'')"
    by (simp add: last_nonempty_segment_def py_def)
  show "item_record ts (anc, item_third) =
     Inr [(py ''timestamp'', Some ts), (py ''station'', Some (py ''3Rd Street'')),
          (py ''aqi'', None), (py ''pollutant'', None), (py ''status'', None),
          (py ''detail_url'', Some (py ''/ispu-detail/3rd-street''))]"
    by (simp add: item_record_def select_one_def select_def SEL_DETAIL_def SEL_VALUE_def
        SEL_POLLUTANT_def SEL_STATUS_def VALUE_BOX_def link_fields_def text_or_none_def
        matches_Descendant_Cons matches_Descendant_Nil marker slug name item_third_def
        del: matches.simps(3))
qed

lemma item_surrogate_record:
  "select SEL_ITEMS ([], page [item_surrogate])
     = [([station_list [item_surrogate], page [item_surrogate]], item_surrogate)]"
  "select_one SEL_DETAIL (anc, item_surrogate)
     = Some (item_surrogate # anc,
             Element (py ''a'') [] [(py ''href'', py ''/ispu-detail/dki1'')] [])"
  "item_record ts (anc, item_surrogate) =
     Inr [(py ''timestamp'', Some ts), (py ''station'', Some (py ''Dki1'')),
          (py ''aqi'', None), (py ''pollutant'', None), (py ''status'', Some [0xD800]),
          (py ''detail_url'', Some (py ''/ispu-detail/dki1''))]"
proof -
  have strip: "strip [0xD800] = [0xD800]"
    by (simp add: strip_def is_space_def)
  show "select SEL_ITEMS ([], page [item_surrogate])
     = [([station_list [item_surrogate], page [item_surrogate]], item_surrogate)]"
    by (simp add: select_def SEL_ITEMS_def page_def station_list_def item_surrogate_def)
  show "select_one SEL_DETAIL (anc, item_surrogate)
     = Some (item_surrogate # anc,
             Element (py ''a'') [] [(py ''href'', py ''/ispu-detail/dki1'')] [])"
    by (simp add: select_one_def select_def SEL_DETAIL_def marker_in_samples
        item_surrogate_def)
  show "item_record ts (anc, item_surrogate) =
     Inr [(py ''timestamp'', Some ts), (py ''station'', Some (py ''Dki1'')),
          (py ''aqi'', None), (py ''pollutant'', None), (py ''status'', Some [0xD800]),
          (py ''detail_url'', Some (py ''/ispu-detail/dki1''))]"
    by (simp add: select_defs strip item_surrogate_def del: matches.simps(3))
qed

lemma scrape_surrogate:
  "scrape (Response 200 (page [item_surrogate])) sample_now =
     Inr [[(py ''timestamp'', Some (py ''2026-11-04T09:05:00Z'')),
           (py ''station'', Some (py ''Dki1'')),
           (py ''aqi'', None), (py ''pollutant'', None), (py ''status'', Some [0xD800]),
           (py ''detail_url'', Some (py ''/ispu-detail/dki1''))]]"
  by (simp add: scrape_def item_surrogate_record strftime_sample dict_getitem_def truthy_def)

section \<open>The claims about \<^verbatim>\<open>scrape\<close> and the run\<close>

text \<open>
  Claim C10. Whenever the lookup of the detail link returns a tag, reading its
  \<^verbatim>\<open>href\<close> attribute succeeds: the selector \<^verbatim>\<open>a[href*='ispu-detail']\<close> matches only
  elements that carry the attribute, so the \<^verbatim>\<open>KeyError\<close> of \<^verbatim>\<open>link_tag["href"]\<close> cannot
  occur, and the record of the item is built.
\<close>

theorem detail_link_has_href:
  "select_one SEL_DETAIL li = Some a \<Longrightarrow>
   (\<exists>href. getitem (snd a) (py ''href'') = Inr href) \<and> (\<exists>r. item_record ts li = Inr r)"
proof -
  assume found: "select_one SEL_DETAIL li = Some a"
  have "\<exists>href. getitem (snd a) (py ''href'') = Inr href"
    using link_fields_found [OF found] by blast
  moreover have "\<exists>r. item_record ts li = Inr r"
    using item_record_total [of ts li] by blast
  ultimately show ?thesis by blast
qed

theorem detail_link_has_href_witness:
  "select_one SEL_DETAIL ([], item_full)
     = Some ([item_full],
             Element (py ''a'') [] [(py ''href'', py ''/ispu-detail/us-embassy-1/'')] [])
   \<and> getitem (Element (py ''a'') [] [(py ''href'', py ''/ispu-detail/us-embassy-1/'')] [])
         (py ''href'') = Inr (py ''/ispu-detail/us-embassy-1/'')
   \<and> item_record (py ''t'') ([], item_full) =
       Inr [(py ''timestamp'', Some (py ''t'')), (py ''station'', Some (py ''Us Embassy 1'')),
            (py ''aqi'', Some (py ''57'')), (py ''pollutant'', Some (py ''PM 2.5'')),
            (py ''status'', Some (py ''Sedang'')),
            (py ''detail_url'', Some (py ''/ispu-detail/us-embassy-1/''))]"
  using detail_link_has_href [of "([], item_full)" "([item_full],
             Element (py ''a'') [] [(py ''href'', py ''/ispu-detail/us-embassy-1/'')] [])" "py ''t''"]
  by (simp add: detail_of_samples item_full_record)

text \<open>
  Claim C5, as stated, fails. The item whose detail link refers to
  \<^verbatim>\<open>/ispu-detail/3rd-street\<close> has the last non-empty segment \<^verbatim>\<open>3rd-street\<close>; with its
  hyphen replaced by a space and each word title-cased that is \<^verbatim>\<open>3rd Street\<close>, while
  the \<^verbatim>\<open>station\<close> of the record is \<^verbatim>\<open>3Rd Street\<close>.
\<close>

theorem station_of_digit_word:
  "select_one SEL_DETAIL ([], item_third)
     = Some ([item_third],
             Element (py ''a'') [] [(py ''href'', py ''/ispu-detail/3rd-street'')] [])
   \<and> last_nonempty_segment (py ''/ispu-detail/3rd-street'') = Some (py ''3rd-street'')
   \<and> title_each_word (py ''3rd-street'') = py ''3rd Street''
   \<and> item_record (py ''t'') ([], item_third) =
       Inr [(py ''timestamp'', Some (py ''t'')), (py ''station'', Some (py ''3Rd Street'')),
            (py ''aqi'', None), (py ''pollutant'', None), (py ''status'', None),
            (py ''detail_url'', Some (py ''/ispu-detail/3rd-street''))]
   \<and> py ''3Rd Street'' \<noteq> py ''3rd Street''"
  by (simp add: item_third_record words_samples)

text \<open>
  Claim C5, amended. The record of a station item is always built. When the item has a
  detail link, \<^verbatim>\<open>detail_url\<close> is the link's reference and \<^verbatim>\<open>station\<close> is a non-empty
  string made from the last non-empty segment of the reference (the trailing \<open>/\<close>
  separators ignored); when that segment is ASCII and in none of its words a letter
  follows a character that is not a letter, \<^verbatim>\<open>station\<close> is the segment with its hyphens
  replaced by spaces and each word title-cased. When the item has no detail link, both
  \<^verbatim>\<open>station\<close> and \<^verbatim>\<open>detail_url\<close> are \<^verbatim>\<open>None\<close>.
\<close>

theorem station_from_detail_link:
  "\<exists>r. item_record ts li = Inr r \<and>
     (case select_one SEL_DETAIL li of
        None \<Rightarrow> dict_getitem r (py ''station'') = Inr None
               \<and> dict_getitem r (py ''detail_url'') = Inr None
      | Some a \<Rightarrow>
          (\<exists>href seg name. getitem (snd a) (py ''href'') = Inr href
             \<and> last_nonempty_segment href = Some seg
             \<and> dict_getitem r (py ''detail_url'') = Inr (Some href)
             \<and> dict_getitem r (py ''station'') = Inr (Some name) \<and> name \<noteq> []
             \<and> (ascii seg \<and> list_all letters_first (slug_words seg)
                  \<longrightarrow> name = title_each_word seg)))"
proof (cases "select_one SEL_DETAIL li")
  case None
  then have "link_fields (select_one SEL_DETAIL li) = Inr (None, None)"
    by (simp add: link_fields_absent)
  from item_record_of_link_fields [OF this, of ts] None show ?thesis
    by (simp add: dict_getitem_def)
next
  case (Some a)
  obtain href seg where h: "getitem (snd a) (py ''href'') = Inr href"
      "last_nonempty_segment href = Some seg" "seg \<noteq> []"
      "link_fields (Some a) = Inr (Some (slug_to_name seg), Some href)"
    using link_fields_found [OF Some] by blast
  have words: "ascii seg \<and> list_all letters_first (slug_words seg)
      \<longrightarrow> slug_to_name seg = title_each_word seg"
    using slug_to_name_title_each_word_plain by blast
  have ne: "slug_to_name seg \<noteq> []" using h(3) by simp
  have "link_fields (select_one SEL_DETAIL li) = Inr (Some (slug_to_name seg), Some href)"
    using h(4) Some by simp
  from item_record_of_link_fields [OF this, of ts]
  have "dict_getitem (projr (item_record ts li)) (py ''station'') = Inr (Some (slug_to_name seg))"
    "dict_getitem (projr (item_record ts li)) (py ''detail_url'') = Inr (Some href)"
    "item_record ts li = Inr (projr (item_record ts li))"
    by (simp_all add: dict_getitem_def)
  then have "item_record ts li = Inr (projr (item_record ts li))
      \<and> (\<exists>href seg name. getitem (snd a) (py ''href'') = Inr href
             \<and> last_nonempty_segment href = Some seg
             \<and> dict_getitem (projr (item_record ts li)) (py ''detail_url'') = Inr (Some href)
             \<and> dict_getitem (projr (item_record ts li)) (py ''station'') = Inr (Some name)
             \<and> name \<noteq> []
             \<and> (ascii seg \<and> list_all letters_first (slug_words seg)
                  \<longrightarrow> name = title_each_word seg))"
    using h(1,2) words ne by blast
  then show ?thesis using Some by (intro exI [of _ "projr (item_record ts li)"]) simp
qed

theorem station_from_detail_link_witness:
  "ascii (py ''us-embassy-1'')
   \<and> list_all letters_first (slug_words (py ''us-embassy-1''))
   \<and> last_nonempty_segment (py ''/ispu-detail/us-embassy-1/'') = Some (py ''us-embassy-1'')
   \<and> title_each_word (py ''us-embassy-1'') = py ''Us Embassy 1''
   \<and> dict_getitem (projr (item_record (py ''t'') ([], item_full))) (py ''station'')
     = Inr (Some (py ''Us Embassy 1''))
   \<and> dict_getitem (projr (item_record (py ''t'') ([], item_full))) (py ''detail_url'')
     = Inr (Some (py ''/ispu-detail/us-embassy-1/''))
   \<and> select_one SEL_DETAIL ([], item_no_link) = None
   \<and> dict_getitem (projr (item_record (py ''t'') ([], item_no_link))) (py ''station'') = Inr None
   \<and> dict_getitem (projr (item_record (py ''t'') ([], item_no_link))) (py ''detail_url'') = Inr None"
  using station_from_detail_link [of "py ''t''" "([], item_full)"]
    station_from_detail_link [of "py ''t''" "([], item_no_link)"]
  by (simp add: detail_of_samples item_full_record item_no_link_record segment_samples
      words_samples plain_samples dict_getitem_def)

text \<open>
  Claim C4. A station item without the AQI heading, but with a detail link, a
  pollutant paragraph and a status label, gives a record whose \<^verbatim>\<open>aqi\<close> is \<^verbatim>\<open>None\<close>
  while \<^verbatim>\<open>station\<close>, \<^verbatim>\<open>pollutant\<close>, \<^verbatim>\<open>status\<close> and \<^verbatim>\<open>detail_url\<close> all hold a string;
  the station is not empty, so the loop keeps the record.
\<close>

theorem missing_aqi_leaves_other_fields:
  assumes "select_one SEL_VALUE li = None"
    and "select_one SEL_DETAIL li \<noteq> None"
    and "select_one SEL_POLLUTANT li \<noteq> None"
    and "select_one SEL_STATUS li \<noteq> None"
  shows "\<exists>r station pollutant status url.
           item_record ts li = Inr r
           \<and> r = [(py ''timestamp'', Some ts), (py ''station'', Some station),
                  (py ''aqi'', None), (py ''pollutant'', Some pollutant),
                  (py ''status'', Some status), (py ''detail_url'', Some url)]
           \<and> station \<noteq> []
           \<and> scrape_loop ts [li] [] = Inr [r]"
proof -
  obtain a where a: "select_one SEL_DETAIL li = Some a" using assms(2) by auto
  obtain p where p: "select_one SEL_POLLUTANT li = Some p" using assms(3) by auto
  obtain s where s: "select_one SEL_STATUS li = Some s" using assms(4) by auto
  obtain href seg where h: "seg \<noteq> []"
      "link_fields (Some a) = Inr (Some (slug_to_name seg), Some href)"
    using link_fields_found [OF a] by blast
  let ?r = "[(py ''timestamp'', Some ts), (py ''station'', Some (slug_to_name seg)),
             (py ''aqi'', None), (py ''pollutant'', Some (get_text_strip (snd p))),
             (py ''status'', Some (get_text_strip (snd s))), (py ''detail_url'', Some href)]"
  have "link_fields (select_one SEL_DETAIL li) = Inr (Some (slug_to_name seg), Some href)"
    using h(2) a by simp
  from item_record_of_link_fields [OF this, of ts]
  have r: "item_record ts li = Inr ?r"
    using assms(1) p s by (simp add: text_or_none_def)
  have ne: "slug_to_name seg \<noteq> []" using h(1) by simp
  have "dict_getitem ?r (py ''station'') = Inr (Some (slug_to_name seg))"
    by (simp add: dict_getitem_def)
  then have "scrape_loop ts [li] [] = Inr [?r]"
    using r ne by (simp add: truthy_def)
  then show ?thesis using r ne by blast
qed

theorem missing_aqi_leaves_other_fields_witness:
  "select_one SEL_VALUE ([], item_no_aqi) = None
   \<and> item_record (py ''t'') ([], item_no_aqi) =
       Inr [(py ''timestamp'', Some (py ''t'')), (py ''station'', Some (py ''Dki1'')),
            (py ''aqi'', None), (py ''pollutant'', Some (py ''SO2'')),
            (py ''status'', Some (py ''Baik'')),
            (py ''detail_url'', Some (py ''/ispu-detail/dki1''))]
   \<and> scrape_loop (py ''t'') [([], item_no_aqi)] [] =
       Inr [[(py ''timestamp'', Some (py ''t'')), (py ''station'', Some (py ''Dki1'')),
            (py ''aqi'', None), (py ''pollutant'', Some (py ''SO2'')),
            (py ''status'', Some (py ''Baik'')),
            (py ''detail_url'', Some (py ''/ispu-detail/dki1''))]]"
  using missing_aqi_leaves_other_fields [of "([], item_no_aqi)" "py ''t''"]
  by (simp add: others_of_item_no_aqi detail_of_samples item_no_aqi_record)

text \<open>
  Claim C6. Every record that \<^verbatim>\<open>scrape\<close> returns has exactly the six keys
  \<^verbatim>\<open>timestamp\<close>, \<^verbatim>\<open>station\<close>, \<^verbatim>\<open>aqi\<close>, \<^verbatim>\<open>pollutant\<close>, \<^verbatim>\<open>status\<close>, \<^verbatim>\<open>detail_url\<close>, each
  bound to a string or to \<^verbatim>\<open>None\<close>, and its \<^verbatim>\<open>station\<close> is a non-empty string.
\<close>

theorem records_have_station_and_six_keys:
  "scrape resp now = Inr records \<Longrightarrow>
   list_all (\<lambda>r. map fst r = fieldnames
                \<and> list_all (\<lambda>key. \<exists>v. dict_getitem r key = Inr v) fieldnames
                \<and> (\<exists>s. dict_getitem r (py ''station'') = Inr (Some s) \<and> s \<noteq> [])) records"
proof -
  assume run: "scrape resp now = Inr records"
  have "map fst r = fieldnames
      \<and> list_all (\<lambda>key. \<exists>v. dict_getitem r key = Inr v) fieldnames
      \<and> (\<exists>s. dict_getitem r (py ''station'') = Inr (Some s) \<and> s \<noteq> [])"
    if mem: "r \<in> set records" for r
  proof -
    obtain station where st: "map fst r = fieldnames"
        "dict_getitem r (py ''station'') = Inr station" "truthy station"
      using scraped_record [OF run mem] by blast
    have "\<exists>v. dict_getitem r key = Inr v" if key: "key \<in> set fieldnames" for key
    proof -
      have "key \<in> fst ` set r" using key st(1) by (metis set_map)
      then obtain v where "map_of r key = Some v"
        by (metis domD dom_map_of_conv_image_fst)
      then show ?thesis by (simp add: dict_getitem_def)
    qed
    then have "list_all (\<lambda>key. \<exists>v. dict_getitem r key = Inr v) fieldnames"
      by (simp add: list_all_iff)
    then show ?thesis using st by (cases station) (auto simp: truthy_def)
  qed
  then show ?thesis by (simp add: list_all_iff)
qed

theorem records_have_station_and_six_keys_witness:
  "scrape (Response 200 (page [item_full, item_no_link])) sample_now =
     Inr [[(py ''timestamp'', Some (py ''2026-11-04T09:05:00Z'')),
           (py ''station'', Some (py ''Us Embassy 1'')),
           (py ''aqi'', Some (py ''57'')), (py ''pollutant'', Some (py ''PM 2.5'')),
           (py ''status'', Some (py ''Sedang'')),
           (py ''detail_url'', Some (py ''/ispu-detail/us-embassy-1/''))]]
   \<and> list_all (\<lambda>r. map fst r = fieldnames
                \<and> list_all (\<lambda>key. \<exists>v. dict_getitem r key = Inr v) fieldnames
                \<and> (\<exists>s. dict_getitem r (py ''station'') = Inr (Some s) \<and> s \<noteq> []))
         [[(py ''timestamp'', Some (py ''2026-11-04T09:05:00Z'')),
           (py ''station'', Some (py ''Us Embassy 1'')),
           (py ''aqi'', Some (py ''57'')), (py ''pollutant'', Some (py ''PM 2.5'')),
           (py ''status'', Some (py ''Sedang'')),
           (py ''detail_url'', Some (py ''/ispu-detail/us-embassy-1/''))]]"
  using records_have_station_and_six_keys [OF scrape_samples(1)]
  by (simp add: scrape_samples)



text \<open>
  Claim C3. When the fetch succeeds and the document has no station item,
  \<^verbatim>\<open>scrape\<close> returns the empty list without raising, and the run leaves every file as
  it was: neither the JSON file nor the CSV file is created or modified.
\<close>

theorem no_items_no_files:
  "select SEL_ITEMS ([], soup) = [] \<Longrightarrow> \<not> (400 \<le> status \<and> status < 600) \<Longrightarrow>
   scrape (Response status soup) now = Inr []
   \<and> main (Response status soup) now fs = (None, fs)"
proof -
  assume none: "select SEL_ITEMS ([], soup) = []" and ok: "\<not> (400 \<le> status \<and> status < 600)"
  have "scrape (Response status soup) now = Inr []"
    using scrape_ok [OF ok, of soup now] none by simp
  then show ?thesis by (simp add: main_def)
qed

theorem no_items_no_files_witness:
  "select SEL_ITEMS ([], page []) = []
   \<and> scrape (Response 200 (page [])) sample_now = Inr []
   \<and> main (Response 200 (page [])) sample_now sample_files = (None, sample_files)"
  using no_items_no_files [of "page []" 200 sample_now sample_files]
  by (simp add: items_of_pages)

text \<open>
  Claim C2, as stated, fails. The status 300 is no success status, and
  \<^verbatim>\<open>raise_for_status\<close> does not raise on it: \<^verbatim>\<open>scrape\<close> reads the body, two records
  are extracted, the rows are appended to the CSV file that was there, and the JSON
  file is written.
\<close>

theorem redirect_status_writes_files:
  "\<not> http_success 300
   \<and> scrape (Response 300 (page [item_full, item_no_aqi])) sample_now =
       Inr [[(py ''timestamp'', Some (py ''2026-11-04T09:05:00Z'')),
             (py ''station'', Some (py ''Us Embassy 1'')),
             (py ''aqi'', Some (py ''57'')), (py ''pollutant'', Some (py ''PM 2.5'')),
             (py ''status'', Some (py ''Sedang'')),
             (py ''detail_url'', Some (py ''/ispu-detail/us-embassy-1/''))],
            [(py ''timestamp'', Some (py ''2026-11-04T09:05:00Z'')),
             (py ''station'', Some (py ''Dki1'')),
             (py ''aqi'', None), (py ''pollutant'', Some (py ''SO2'')),
             (py ''status'', Some (py ''Baik'')),
             (py ''detail_url'', Some (py ''/ispu-detail/dki1''))]]
   \<and> sample_files OUTPUT_CSV = Some (py ''old'')
   \<and> snd (main (Response 300 (page [item_full, item_no_aqi])) sample_now sample_files) OUTPUT_CSV
       = Some (py ''old''
           @ py ''2026-11-04T09:05:00Z,Us Embassy 1,57,PM 2.5,Sedang,/ispu-detail/us-embassy-1/''
           @ [13, 10]
           @ py ''2026-11-04T09:05:00Z,Dki1,,SO2,Baik,/ispu-detail/dki1'' @ [13, 10])
   \<and> snd (main (Response 300 (page [item_full, item_no_aqi])) sample_now Map.empty) OUTPUT_JSON
       \<noteq> None"
proof -
  have csv: "csv_row [py ''2026-11-04T09:05:00Z'', py ''Us Embassy 1'', py ''57'', py ''PM 2.5'',
                py ''Sedang'', py ''/ispu-detail/us-embassy-1/'']
      = py ''2026-11-04T09:05:00Z,Us Embassy 1,57,PM 2.5,Sedang,/ispu-detail/us-embassy-1/''
          @ [13, 10]"
    "csv_row [py ''2026-11-04T09:05:00Z'', py ''Dki1'', [], py ''SO2'', py ''Baik'',
                py ''/ispu-detail/dki1'']
      = py ''2026-11-04T09:05:00Z,Dki1,,SO2,Baik,/ispu-detail/dki1'' @ [13, 10]"
    by (simp_all add: csv_row_def csv_field_def py_def)
  let ?records = "[[(py ''timestamp'', Some (py ''2026-11-04T09:05:00Z'')),
             (py ''station'', Some (py ''Us Embassy 1'')),
             (py ''aqi'', Some (py ''57'')), (py ''pollutant'', Some (py ''PM 2.5'')),
             (py ''status'', Some (py ''Sedang'')),
             (py ''detail_url'', Some (py ''/ispu-detail/us-embassy-1/''))],
            [(py ''timestamp'', Some (py ''2026-11-04T09:05:00Z'')),
             (py ''station'', Some (py ''Dki1'')),
             (py ''aqi'', None), (py ''pollutant'', Some (py ''SO2'')),
             (py ''status'', Some (py ''Baik'')),
             (py ''detail_url'', Some (py ''/ispu-detail/dki1''))]]"
  have enc: "list_all dict_encodable ?records"
    by (simp add: dict_encodable_def)
  have keys: "list_all (\<lambda>r. map fst r = fieldnames) ?records"
    by (simp add: fieldnames_def)
  have json: "save_json ?records fs = (None, fs(OUTPUT_JSON \<mapsto> concat (json_chunks ?records)))"
    for fs
    using enc by (rule save_json_encodable)
  have appended: "concat (map (\<lambda>r. csv_row (record_row r)) ?records)
      = py ''2026-11-04T09:05:00Z,Us Embassy 1,57,PM 2.5,Sedang,/ispu-detail/us-embassy-1/''
           @ [13, 10]
           @ py ''2026-11-04T09:05:00Z,Dki1,,SO2,Baik,/ispu-detail/dki1'' @ [13, 10]"
    by (simp add: record_row_def cell_of_def csv)
  have run: "main (Response 300 (page [item_full, item_no_aqi])) sample_now fs
      = append_csv ?records (fs(OUTPUT_JSON \<mapsto> concat (json_chunks ?records)))" for fs
    by (simp add: main_def scrape_samples json)
  have written: "snd (main (Response 300 (page [item_full, item_no_aqi])) sample_now fs)
      = (fs(OUTPUT_JSON \<mapsto> concat (json_chunks ?records)))
          (OUTPUT_CSV \<mapsto>
             (case (fs(OUTPUT_JSON \<mapsto> concat (json_chunks ?records))) OUTPUT_CSV of
                None \<Rightarrow> csv_header | Some old \<Rightarrow> old)
               @ concat (map (\<lambda>r. csv_row (record_row r)) ?records))" for fs
    by (simp only: run append_csv_encodable [OF keys enc] snd_conv)
  have "\<not> http_success 300" by (simp add: http_success_def)
  moreover have "sample_files OUTPUT_CSV = Some (py ''old'')"
    by (simp add: sample_files_def)
  moreover have
    "snd (main (Response 300 (page [item_full, item_no_aqi])) sample_now sample_files) OUTPUT_CSV
       = Some (py ''old''
           @ py ''2026-11-04T09:05:00Z,Us Embassy 1,57,PM 2.5,Sedang,/ispu-detail/us-embassy-1/''
           @ [13, 10]
           @ py ''2026-11-04T09:05:00Z,Dki1,,SO2,Baik,/ispu-detail/dki1'' @ [13, 10])"
    unfolding written appended
    by (simp add: sample_files_def output_paths_differ output_paths_differ [symmetric])
  moreover have
    "snd (main (Response 300 (page [item_full, item_no_aqi])) sample_now Map.empty) OUTPUT_JSON
       \<noteq> None"
    unfolding written
    by (simp add: output_paths_differ output_paths_differ [symmetric])
  ultimately show ?thesis using scrape_samples(2) by simp
qed

text \<open>
  Claim C2, amended. Whenever the HTTP GET fails at the network level or returns a
  status from 400 to 599 (for instance 500), the run ends with the exception before any
  file is written, whatever the body holds: every file is as it was before the run.
\<close>

theorem failed_fetch_writes_nothing:
  "main NoResponse now fs = (Some RequestException, fs)
   \<and> (400 \<le> status \<and> status < 600 \<longrightarrow>
        main (Response status soup) now fs = (Some (HTTPError status), fs))"
  by (simp add: main_def scrape_def)

theorem failed_fetch_writes_nothing_witness:
  "main NoResponse sample_now sample_files = (Some RequestException, sample_files)
   \<and> main (Response 500 (page [item_full, item_no_aqi])) sample_now sample_files
       = (Some (HTTPError 500), sample_files)"
  using failed_fetch_writes_nothing [of sample_now sample_files 500 "page [item_full, item_no_aqi]"]
  by simp

text \<open>
  Claim C8, as stated, fails. The page has one station item, with a detail link and a
  status text that holds the lone surrogate U+D800. \<^verbatim>\<open>scrape\<close> returns one record, but
  \<^verbatim>\<open>append_csv\<close> cannot encode its row: it raises \<^verbatim>\<open>UnicodeEncodeError\<close> and appends no
  row to the CSV file.
\<close>

theorem surrogate_row_not_appended:
  "length (select SEL_ITEMS ([], page [item_surrogate])) = 1
   \<and> list_all (\<lambda>li. select_one SEL_DETAIL li \<noteq> None)
         (select SEL_ITEMS ([], page [item_surrogate]))
   \<and> scrape (Response 200 (page [item_surrogate])) sample_now =
       Inr [[(py ''timestamp'', Some (py ''2026-11-04T09:05:00Z'')),
             (py ''station'', Some (py ''Dki1'')),
             (py ''aqi'', None), (py ''pollutant'', None), (py ''status'', Some [0xD800]),
             (py ''detail_url'', Some (py ''/ispu-detail/dki1''))]]
   \<and> sample_files OUTPUT_CSV = Some (py ''old'')
   \<and> fst (append_csv
              [[(py ''timestamp'', Some (py ''2026-11-04T09:05:00Z'')),
                (py ''station'', Some (py ''Dki1'')),
                (py ''aqi'', None), (py ''pollutant'', None), (py ''status'', Some [0xD800]),
                (py ''detail_url'', Some (py ''/ispu-detail/dki1''))]] sample_files)
       = Some UnicodeEncodeError
   \<and> snd (append_csv
              [[(py ''timestamp'', Some (py ''2026-11-04T09:05:00Z'')),
                (py ''station'', Some (py ''Dki1'')),
                (py ''aqi'', None), (py ''pollutant'', None), (py ''status'', Some [0xD800]),
                (py ''detail_url'', Some (py ''/ispu-detail/dki1''))]] sample_files) OUTPUT_CSV
       = Some (py ''old'')"
proof -
  let ?r = "[(py ''timestamp'', Some (py ''2026-11-04T09:05:00Z'')),
             (py ''station'', Some (py ''Dki1'')),
             (py ''aqi'', None), (py ''pollutant'', None), (py ''status'', Some [0xD800]),
             (py ''detail_url'', Some (py ''/ispu-detail/dki1''))]"
  have cells: "dict_to_list ?r = Inr (record_row ?r)"
    by (rule dict_to_list_record_row) (simp add: fieldnames_def)
  have "csv_row (record_row ?r)
      = py ''2026-11-04T09:05:00Z,Dki1,,,'' @ [0xD800] @ py '',/ispu-detail/dki1'' @ [13, 10]"
    by (simp add: csv_row_def csv_field_def record_row_def cell_of_def py_def)
  then have "\<not> str_encodable (csv_row (record_row ?r))"
    by (simp add: str_encodable_Cons utf8_encodable_def)
  then have "writerows [?r] content = (Some UnicodeEncodeError, content)" for content
    using cells by (simp add: file_write_def)
  then have "append_csv [?r] sample_files
      = (Some UnicodeEncodeError, sample_files(OUTPUT_CSV \<mapsto> py ''old''))"
    by (simp add: append_csv_def sample_files_def)
  then show ?thesis
    by (simp add: item_surrogate_record scrape_surrogate sample_files_def)
qed

text \<open>
  Claim C8, amended. When the fetch succeeds and each of the \<open>N\<close> station items of the
  document has a detail link, \<^verbatim>\<open>scrape\<close> returns exactly \<open>N\<close> records, the record at each
  position being the one of the item at that position in document order; and when every
  field text of these records can be encoded in UTF-8, \<^verbatim>\<open>append_csv\<close> then appends to the
  CSV file (after the header line, when the file did not exist) a text that reads as
  exactly \<open>N\<close> rows, the row at each position holding the six fields of the record at
  that position.
\<close>

theorem items_with_links_give_rows:
  assumes "\<not> (400 \<le> status \<and> status < 600)"
    and "list_all (\<lambda>li. select_one SEL_DETAIL li \<noteq> None) (select SEL_ITEMS ([], soup))"
  shows "\<exists>records.
           scrape (Response status soup) now = Inr records
           \<and> length records = length (select SEL_ITEMS ([], soup))
           \<and> list_all2 (\<lambda>li r. item_record (strftime now) li = Inr r)
                 (select SEL_ITEMS ([], soup)) records
           \<and> (list_all dict_encodable records \<longrightarrow>
                (\<exists>appended.
                   append_csv records fs =
                     (None, fs(OUTPUT_CSV \<mapsto>
                        (case fs OUTPUT_CSV of None \<Rightarrow> csv_header | Some old \<Rightarrow> old)
                          @ appended))
                   \<and> csv_rows appended = Some (map record_row records)
                   \<and> length (map record_row records) = length (select SEL_ITEMS ([], soup))))"
proof -
  let ?lis = "select SEL_ITEMS ([], soup)"
  obtain rs where rs: "scrape_loop (strftime now) ?lis [] = Inr ([] @ rs)"
      "list_all (\<lambda>li. select_one SEL_DETAIL li \<noteq> None) ?lis
          \<longrightarrow> list_all2 (\<lambda>li r. item_record (strftime now) li = Inr r) ?lis rs"
    using scrape_loop_append [of "strftime now" ?lis "[]"] by blast
  have run: "scrape (Response status soup) now = Inr rs"
    using scrape_ok [OF assms(1), of soup now] rs(1) by simp
  have order: "list_all2 (\<lambda>li r. item_record (strftime now) li = Inr r) ?lis rs"
    using rs(2) assms(2) by simp
  then have len: "length rs = length ?lis" by (simp add: list_all2_lengthD)
  have keys: "list_all (\<lambda>r. map fst r = fieldnames) rs"
    unfolding list_all_iff
  proof
    fix r assume "r \<in> set rs"
    then show "map fst r = fieldnames" using scraped_record [OF run] by blast
  qed
  let ?old = "case fs OUTPUT_CSV of None \<Rightarrow> csv_header | Some old \<Rightarrow> old"
  let ?appended = "concat (map (\<lambda>r. csv_row (record_row r)) rs)"
  have "append_csv rs fs = (None, fs(OUTPUT_CSV \<mapsto> ?old @ ?appended))
      \<and> csv_rows ?appended = Some (map record_row rs)
      \<and> length (map record_row rs) = length ?lis"
    if enc: "list_all dict_encodable rs"
  proof -
    have "append_csv rs fs = (None, fs(OUTPUT_CSV \<mapsto> ?old @ ?appended))"
      using keys enc by (rule append_csv_encodable)
    then show ?thesis using csv_rows_of_records [of rs] len by simp
  qed
  then show ?thesis using run len order by blast
qed

theorem items_with_links_give_rows_witness:
  "length (select SEL_ITEMS ([], page [item_full, item_no_aqi])) = 2
   \<and> list_all (\<lambda>li. select_one SEL_DETAIL li \<noteq> None)
         (select SEL_ITEMS ([], page [item_full, item_no_aqi]))
   \<and> list_all dict_encodable
         (projr (scrape (Response 200 (page [item_full, item_no_aqi])) sample_now))
   \<and> (\<exists>appended.
         append_csv (projr (scrape (Response 200 (page [item_full, item_no_aqi])) sample_now))
             Map.empty
           = (None, [OUTPUT_CSV \<mapsto> csv_header @ appended])
         \<and> csv_rows appended =
             Some [[py ''2026-11-04T09:05:00Z'', py ''Us Embassy 1'', py ''57'', py ''PM 2.5'',
                    py ''Sedang'', py ''/ispu-detail/us-embassy-1/''],
                   [py ''2026-11-04T09:05:00Z'', py ''Dki1'', [], py ''SO2'', py ''Baik'',
                    py ''/ispu-detail/dki1'']])"
proof -
  have links: "list_all (\<lambda>li. select_one SEL_DETAIL li \<noteq> None)
      (select SEL_ITEMS ([], page [item_full, item_no_aqi]))"
    by (simp add: items_of_pages detail_of_samples)
  have ok: "\<not> (400 \<le> (200::nat) \<and> (200::nat) < 600)" by simp
  have run: "scrape (Response 200 (page [item_full, item_no_aqi])) sample_now
      = scrape (Response 300 (page [item_full, item_no_aqi])) sample_now"
    by (simp add: scrape_def)
  show ?thesis
    using items_with_links_give_rows [OF ok links, of sample_now Map.empty] links
    by (simp add: run scrape_samples items_of_pages dict_encodable_def
        record_row_def cell_of_def)
qed

end
